theory Spec2Isabelle
  imports Main "HOL-Library.Word"
begin

unbundle bit_operations_syntax

section \<open>Values of the host language\<close>

text \<open>
  The program is \<^verbatim>\<open>src/switcher.js\<close>. A Node \<^verbatim>\<open>Buffer\<close> is a list of bytes. A
  string that only ever holds a hex dump is a \<^typ>\<open>string\<close>; the string obtained by
  decoding a buffer as UTF-8 is a list of UTF-16 code units, which is what
  \<^verbatim>\<open>substr\<close> indexes.
\<close>

type_synonym byte = "8 word"
type_synonym code_unit = "16 word"

text \<open>
  The values that reach a string concatenation in the program: \<^verbatim>\<open>undefined\<close> (a
  function that ends without \<^verbatim>\<open>return\<close>), \<^verbatim>\<open>null\<close> (the initial session) and
  strings. \<open>js_to_string\<close> is the conversion \<^verbatim>\<open>+\<close> applies, \<open>truthy\<close> the
  conversion \<^verbatim>\<open>if\<close> applies.
\<close>

datatype js_val = Undefined | Null | Str string

fun js_to_string :: "js_val \<Rightarrow> string" where
  "js_to_string Undefined = ''undefined''"
| "js_to_string Null = ''null''"
| "js_to_string (Str s) = s"

fun truthy :: "js_val \<Rightarrow> bool" where
  "truthy Undefined = False"
| "truthy Null = False"
| "truthy (Str s) = (s \<noteq> [])"

datatype js_error = RangeError | ERR_SOCKET_DGRAM_NOT_RUNNING | ConnectionError

text \<open>\<^verbatim>\<open>s.substr(start, len)\<close> for a start inside or beyond the string.\<close>

definition substr :: "'a list \<Rightarrow> nat \<Rightarrow> nat \<Rightarrow> 'a list" where
  "substr s start len = take len (drop start s)"

subsection \<open>Hex dumps\<close>

text \<open>The digit of a value below 16, and the value of a hex digit of either case.\<close>

definition hex_digit :: "nat \<Rightarrow> char" where
  "hex_digit n = ''0123456789abcdef'' ! n"

definition hex_value :: "char \<Rightarrow> nat option" where
  "hex_value c =
     (let n = (of_char c :: nat) in
      if 48 \<le> n \<and> n \<le> 57 then Some (n - 48)
      else if 97 \<le> n \<and> n \<le> 102 then Some (n - 87)
      else if 65 \<le> n \<and> n \<le> 70 then Some (n - 55)
      else None)"

text \<open>\<^verbatim>\<open>buf.toString('hex')\<close>: two lower-case digits per byte.\<close>

fun toString_hex :: "byte list \<Rightarrow> string" where
  "toString_hex [] = []"
| "toString_hex (b # bs) =
     hex_digit (unat b div 16) # hex_digit (unat b mod 16) # toString_hex bs"

text \<open>
  \<^verbatim>\<open>Buffer.from(s, 'hex')\<close>: one byte per pair of hex digits; decoding stops at the
  first pair that is not two hex digits, and a trailing single character is dropped.
\<close>

fun Buffer_from_hex :: "string \<Rightarrow> byte list" where
  "Buffer_from_hex (c # d # cs) =
     (case hex_value c of
        None \<Rightarrow> []
      | Some h \<Rightarrow>
          (case hex_value d of
             None \<Rightarrow> []
           | Some l \<Rightarrow> word_of_nat (16 * h + l) # Buffer_from_hex cs))"
| "Buffer_from_hex [c] = []"
| "Buffer_from_hex [] = []"

text \<open>\<^verbatim>\<open>Buffer.from(s)\<close> of a string of ASCII characters: one byte per character.\<close>

definition Buffer_from :: "string \<Rightarrow> byte list" where
  "Buffer_from s = map (\<lambda>c. word_of_nat (of_char c)) s"

text \<open>
  \<^verbatim>\<open>parseInt(s, 16)\<close> on a piece of a hex dump (no sign, prefix or white space
  occurs there): the value of the longest prefix of hex digits, \<open>None\<close> for
  \<^verbatim>\<open>NaN\<close> when there is no digit.
\<close>

fun hex_prefix :: "nat \<Rightarrow> string \<Rightarrow> nat" where
  "hex_prefix acc [] = acc"
| "hex_prefix acc (c # cs) =
     (case hex_value c of None \<Rightarrow> acc | Some d \<Rightarrow> hex_prefix (16 * acc + d) cs)"

definition parseInt16 :: "string \<Rightarrow> nat option" where
  "parseInt16 s =
     (case s of
        [] \<Rightarrow> None
      | c # cs \<Rightarrow> (case hex_value c of None \<Rightarrow> None | Some d \<Rightarrow> Some (hex_prefix d cs)))"

subsection \<open>python-struct\<close>

text \<open>
  \<^verbatim>\<open>struct.pack('<I', n)\<close> and \<^verbatim>\<open>struct.pack('>I', n)\<close>: the four bytes of an
  unsigned 32-bit integer, least or most significant byte first. A number the
  format cannot hold is an error.
\<close>

definition le_bytes32 :: "32 word \<Rightarrow> byte list" where
  "le_bytes32 w = [ucast w, ucast (drop_bit 8 w), ucast (drop_bit 16 w), ucast (drop_bit 24 w)]"

definition be_bytes32 :: "32 word \<Rightarrow> byte list" where
  "be_bytes32 w = [ucast (drop_bit 24 w), ucast (drop_bit 16 w), ucast (drop_bit 8 w), ucast w]"

definition struct_pack_LI :: "int \<Rightarrow> js_error + byte list" where
  "struct_pack_LI n =
     (if 0 \<le> n \<and> n < 2 ^ 32 then Inr (le_bytes32 (word_of_int n)) else Inl RangeError)"

definition struct_pack_BI :: "int \<Rightarrow> js_error + byte list" where
  "struct_pack_BI n =
     (if 0 \<le> n \<and> n < 2 ^ 32 then Inr (be_bytes32 (word_of_int n)) else Inl RangeError)"

subsection \<open>Numbers as text, 32-bit operators\<close>

text \<open>The decimal text of a non-negative integer, as \<^verbatim>\<open>+\<close> with a string writes it.\<close>

fun number_toString :: "nat \<Rightarrow> string" where
  "number_toString n =
     (if n < 10 then [hex_digit n] else number_toString (n div 10) @ [hex_digit (n mod 10)])"

declare number_toString.simps [simp del]

text \<open>
  \<^verbatim>\<open>ToInt32\<close>, applied by \<^verbatim>\<open>>>\<close> and \<^verbatim>\<open>&\<close>: \<^verbatim>\<open>NaN\<close> becomes 0, an integer is
  taken modulo \<open>2 ^ 32\<close>.
\<close>

definition ToInt32 :: "nat option \<Rightarrow> 32 word" where
  "ToInt32 num = (case num of None \<Rightarrow> 0 | Some n \<Rightarrow> word_of_nat n)"

subsection \<open>Decoding a buffer as UTF-8\<close>

text \<open>
  \<^verbatim>\<open>buf.toString()\<close> decodes UTF-8 the way the Encoding Standard does: a byte
  below \<open>0x80\<close> is one code unit; a well-formed sequence of two to four bytes is one
  code point; every maximal ill-formed part is one \<open>U+FFFD\<close>, and the byte that
  broke the sequence is read again. A code point from \<open>0x10000\<close> on is two code
  units. The state is the number \<open>need\<close> of continuation bytes still expected, the
  code point \<open>cp\<close> so far and the bounds \<open>lo\<close>, \<open>hi\<close> of the next byte.
\<close>

definition utf16 :: "nat \<Rightarrow> code_unit list" where
  "utf16 cp =
     (if cp < 0x10000 then [word_of_nat cp]
      else [word_of_nat (0xD800 + (cp - 0x10000) div 0x400),
            word_of_nat (0xDC00 + (cp - 0x10000) mod 0x400)])"

fun utf8_decode :: "nat \<Rightarrow> nat \<Rightarrow> byte \<Rightarrow> byte \<Rightarrow> byte list \<Rightarrow> code_unit list" where
  "utf8_decode need cp lo hi [] = (if need = 0 then [] else [0xFFFD])"
| "utf8_decode need cp lo hi (b # bs) =
     (if need = 0 then
        (if b \<le> 0x7F then ucast b # utf8_decode 0 0 0x80 0xBF bs
         else if 0xC2 \<le> b \<and> b \<le> 0xDF then utf8_decode 1 (unat (b AND 0x1F)) 0x80 0xBF bs
         else if 0xE0 \<le> b \<and> b \<le> 0xEF then
           utf8_decode 2 (unat (b AND 0x0F))
             (if b = 0xE0 then 0xA0 else 0x80) (if b = 0xED then 0x9F else 0xBF) bs
         else if 0xF0 \<le> b \<and> b \<le> 0xF4 then
           utf8_decode 3 (unat (b AND 0x07))
             (if b = 0xF0 then 0x90 else 0x80) (if b = 0xF4 then 0x8F else 0xBF) bs
         else 0xFFFD # utf8_decode 0 0 0x80 0xBF bs)
      else if b < lo \<or> hi < b then 0xFFFD # utf8_decode 0 0 0x80 0xBF (b # bs)
      else if need = 1 then utf16 (cp * 64 + unat (b AND 0x3F)) @ utf8_decode 0 0 0x80 0xBF bs
      else utf8_decode (need - 1) (cp * 64 + unat (b AND 0x3F)) 0x80 0xBF bs)"

definition toString_utf8 :: "byte list \<Rightarrow> code_unit list" where
  "toString_utf8 buf = utf8_decode 0 0 0x80 0xBF buf"

subsection \<open>Finite numbers and their text\<close>

text \<open>
  A finite number of the host language is given by the decimal text that the
  conversion of a number to a string writes for it: whether it is negative, its
  decimal digits \<open>s\<close> (as a natural number, 0 for zero) and the position \<open>n\<close> of
  the decimal point, so that the number is \<open>s * 10 ^ (n - k)\<close> with \<open>k\<close> the
  number of digits of \<open>s\<close>. \<open>1.5\<close> is \<open>Number False 15 1\<close>, \<open>10\<close> is
  \<open>Number False 1 2\<close> or \<open>Number False 10 2\<close>, \<open>1e+21\<close> is \<open>Number False 1 22\<close>.
\<close>

datatype number = Number bool nat int

text \<open>\<^verbatim>\<open>x == 0\<close> for a number \<open>x\<close>.\<close>

fun is_zero :: "number \<Rightarrow> bool" where
  "is_zero (Number neg s n) = (s = 0)"

text \<open>The digits of a number without the zeros at their end.\<close>

definition significant :: "string \<Rightarrow> string" where
  "significant ds = rev (dropWhile (\<lambda>c. c = CHR ''0'') (rev ds))"

text \<open>
  The conversion of a number to a string, on as few digits as the number has:
  \<open>0\<close> for zero; the digits with zeros appended, with a point inside, or after
  \<open>0.\<close> and zeros, when \<open>n\<close> is between -5 and 21; the exponent notation
  otherwise.
\<close>

fun ToString :: "number \<Rightarrow> string" where
  "ToString (Number neg s n) =
     (if s = 0 then ''0''
      else (let ds = significant (number_toString s);
                k = int (length ds);
                sign = (if neg then ''-'' else [])
            in if k \<le> n \<and> n \<le> 21 then sign @ ds @ replicate (nat (n - k)) CHR ''0''
               else if 0 < n \<and> n \<le> 21 then sign @ take (nat n) ds @ ''.'' @ drop (nat n) ds
               else if - 6 < n \<and> n \<le> 0 then sign @ ''0.'' @ replicate (nat (- n)) CHR ''0'' @ ds
               else sign @ (if k = 1 then ds else take 1 ds @ ''.'' @ drop 1 ds) @ ''e'' @
                    (if 0 < n - 1 then ''+'' else ''-'') @ number_toString (nat \<bar>n - 1\<bar>)))"

text \<open>
  \<^verbatim>\<open>parseInt(s)\<close> on the text of a number (it has no white space and no prefix
  \<open>0x\<close>): after a sign, the value of the longest prefix of decimal digits, \<open>None\<close>
  for \<^verbatim>\<open>NaN\<close> when there is no digit.
\<close>

definition decimal_value :: "char \<Rightarrow> nat option" where
  "decimal_value c =
     (let n = (of_char c :: nat) in if 48 \<le> n \<and> n \<le> 57 then Some (n - 48) else None)"

fun decimal_prefix :: "nat \<Rightarrow> string \<Rightarrow> nat" where
  "decimal_prefix acc [] = acc"
| "decimal_prefix acc (c # cs) =
     (case decimal_value c of None \<Rightarrow> acc | Some d \<Rightarrow> decimal_prefix (10 * acc + d) cs)"

definition parse_digits :: "string \<Rightarrow> nat option" where
  "parse_digits s =
     (case s of
        [] \<Rightarrow> None
      | c # cs \<Rightarrow> (case decimal_value c of None \<Rightarrow> None | Some d \<Rightarrow> Some (decimal_prefix d cs)))"

definition parseInt :: "string \<Rightarrow> int option" where
  "parseInt s =
     (case s of
        [] \<Rightarrow> None
      | c # cs \<Rightarrow>
          if c = CHR ''-'' then map_option (\<lambda>v. - int v) (parse_digits cs)
          else if c = CHR ''+'' then map_option int (parse_digits cs)
          else map_option int (parse_digits s))"

section \<open>SwitcherUDPMessage\<close>

definition OFF :: nat where "OFF = 0"
definition ON :: nat where "ON = 1"

text \<open>
  \<^verbatim>\<open>is_valid\<close>, lines 42-45:
  \<^verbatim>\<open>!(hex.substr(0, 4) != 'fef0' && message_buffer.byteLength != 165)\<close>.
\<close>

definition is_valid :: "byte list \<Rightarrow> bool" where
  "is_valid message_buffer =
     (\<not> (substr (toString_hex message_buffer) 0 4 \<noteq> ''fef0'' \<and> length message_buffer \<noteq> 165))"

text \<open>The constructor, lines 37-40.\<close>

record SwitcherUDPMessage =
  data_str :: "code_unit list"
  data_hex :: string

definition new_SwitcherUDPMessage :: "byte list \<Rightarrow> SwitcherUDPMessage" where
  "new_SwitcherUDPMessage message_buffer =
     \<lparr>data_str = toString_utf8 message_buffer, data_hex = toString_hex message_buffer\<rparr>"

text \<open>\<^verbatim>\<open>inet_ntoa(num)\<close>, lines 94-100.\<close>

definition inet_ntoa :: "nat option \<Rightarrow> string" where
  "inet_ntoa num =
     (let a = unat (signed_drop_bit 24 (ToInt32 num) AND 0xFF);
          b = unat (signed_drop_bit 16 (ToInt32 num) AND 0xFF);
          c = unat (signed_drop_bit 8 (ToInt32 num) AND 0xFF);
          d = unat (ToInt32 num AND 0xFF)
      in number_toString a @ ''.'' @ number_toString b @ ''.'' @ number_toString c @ ''.'' @
         number_toString d)"

text \<open>\<^verbatim>\<open>extract_ip_addr\<close>, lines 47-55.\<close>

definition extract_ip_addr :: "SwitcherUDPMessage \<Rightarrow> string" where
  "extract_ip_addr m =
     (let ip_addr_section = substr (data_hex m) 152 8;
          ip_addr_int = parseInt16
            (substr ip_addr_section 0 2 @ substr ip_addr_section 2 2 @
             substr ip_addr_section 4 2 @ substr ip_addr_section 6 2)
      in inet_ntoa ip_addr_int)"

text \<open>\<^verbatim>\<open>extract_device_name\<close>, lines 57-59: \<^verbatim>\<open>replace(/\0/g, '')\<close> removes every NUL.\<close>

definition extract_device_name :: "SwitcherUDPMessage \<Rightarrow> code_unit list" where
  "extract_device_name m = removeAll 0 (substr (data_str m) 40 32)"

text \<open>\<^verbatim>\<open>extract_device_id\<close> and \<^verbatim>\<open>extract_switch_state\<close>, lines 61-67.\<close>

definition extract_device_id :: "SwitcherUDPMessage \<Rightarrow> string" where
  "extract_device_id m = substr (data_hex m) 36 6"

definition extract_switch_state :: "SwitcherUDPMessage \<Rightarrow> nat" where
  "extract_switch_state m = (if substr (data_hex m) 266 4 = ''0000'' then OFF else ON)"

text \<open>The three numeric fields, lines 69-92.\<close>

definition extract_shutdown_remaining_seconds :: "SwitcherUDPMessage \<Rightarrow> nat option" where
  "extract_shutdown_remaining_seconds m =
     (let time_left_section = substr (data_hex m) 294 8
      in parseInt16
           (substr time_left_section 6 2 @ substr time_left_section 4 2 @
            substr time_left_section 2 2 @ substr time_left_section 0 2))"

definition extract_default_shutdown_seconds :: "SwitcherUDPMessage \<Rightarrow> nat option" where
  "extract_default_shutdown_seconds m =
     (let shutdown_settings_section = substr (data_hex m) 310 8
      in parseInt16
           (substr shutdown_settings_section 6 2 @ substr shutdown_settings_section 4 2 @
            substr shutdown_settings_section 2 2 @ substr shutdown_settings_section 0 2))"

definition extract_power_consumption :: "SwitcherUDPMessage \<Rightarrow> nat option" where
  "extract_power_consumption m =
     (let power_consumption_section = substr (data_hex m) 270 4
      in parseInt16
           (substr power_consumption_section 2 2 @ substr power_consumption_section 0 2))"

section \<open>Switcher: encoding of durations\<close>

text \<open>
  \<^verbatim>\<open>_timer_value(minutes)\<close>, lines 348-352, for a finite number:
  \<^verbatim>\<open>parseInt(minutes)\<close> reads the text of the number. The error is the one
  \<^verbatim>\<open>struct.pack\<close> raises. The text of a number always starts with a digit after
  its sign, so \<^verbatim>\<open>parseInt\<close> is never \<^verbatim>\<open>NaN\<close> here (lemma
  \<open>parseInt_ToString\<close>).
\<close>

definition timer_value :: "number \<Rightarrow> js_error + string" where
  "timer_value minutes =
     (if is_zero minutes then Inr ''00000000''
      else (case parseInt (ToString minutes) of
              None \<Rightarrow> Inl RangeError
            | Some i \<Rightarrow>
                (let seconds = i * 60
                 in (case struct_pack_LI seconds of
                       Inl e \<Rightarrow> Inl e
                     | Inr b \<Rightarrow> Inr (toString_hex b)))))"

text \<open>
  The \<^verbatim>\<open>on_command\<close> of \<^verbatim>\<open>turn_on(duration)\<close>, line 171:
  \<^verbatim>\<open>ON + '00' + this._timer_value(duration)\<close>, and the \<^verbatim>\<open>off_command\<close> of
  \<^verbatim>\<open>turn_off\<close>, line 166.
\<close>

definition on_command :: "number \<Rightarrow> js_error + string" where
  "on_command duration =
     (case timer_value duration of
        Inl e \<Rightarrow> Inl e
      | Inr t \<Rightarrow> Inr (''1'' @ ''00'' @ t))"

definition off_command :: string where
  "off_command = ''0'' @ ''00'' @ ''00000000''"

text \<open>
  \<^verbatim>\<open>_set_default_shutdown(seconds)\<close>, lines 354-362. Only the last branch has a
  \<^verbatim>\<open>return\<close>; the first two assign to \<^verbatim>\<open>seconds\<close> and fall off the end of the
  function, whose value is then \<^verbatim>\<open>undefined\<close>.
\<close>

definition set_default_shutdown_value :: "int \<Rightarrow> js_error + js_val" where
  "set_default_shutdown_value seconds =
     (if seconds < 3600 then Inr Undefined
      else if seconds > 86340 then Inr Undefined
      else (case struct_pack_LI seconds of
              Inl e \<Rightarrow> Inl e
            | Inr b \<Rightarrow> Inr (Str (toString_hex b))))"

section \<open>Switcher: signing\<close>

text \<open>The constants of lines 11-12.\<close>

definition P_SESSION :: string where
  "P_SESSION = ''00000000''"

definition P_KEY :: string where
  "P_KEY = ''00000000000000000000000000000000''"

text \<open>
  \<^verbatim>\<open>_crc_sign_full_packet_com_key(p_data, p_key)\<close>, lines 364-371. The function
  \<^verbatim>\<open>crc16ccitt\<close> comes from \<^verbatim>\<open>./crc\<close>, which is not among the sources, so it is a
  parameter here: a function of a buffer and the number the call site passes
  second, \<open>0x1021\<close>, to an unsigned 16-bit value.
\<close>

definition crc_sign_full_packet_com_key ::
    "(byte list \<Rightarrow> 16 word \<Rightarrow> 16 word) \<Rightarrow> string \<Rightarrow> string \<Rightarrow> js_error + string" where
  "crc_sign_full_packet_com_key crc16ccitt p_data p_key =
     (case struct_pack_BI (uint (crc16ccitt (Buffer_from_hex p_data) 0x1021)) of
        Inl e \<Rightarrow> Inl e
      | Inr packed \<Rightarrow>
          (let crc = toString_hex packed;
               p_data1 = p_data @ substr crc 6 2 @ substr crc 4 2;
               crc1 = substr crc 6 2 @ substr crc 4 2 @ toString_hex (Buffer_from p_key)
           in (case struct_pack_BI (uint (crc16ccitt (Buffer_from_hex crc1) 0x1021)) of
                 Inl e \<Rightarrow> Inl e
               | Inr packed2 \<Rightarrow>
                   (let crc2 = toString_hex packed2
                    in Inr (p_data1 @ substr crc2 6 2 @ substr crc2 4 2)))))"

text \<open>
  The two bytes the signer appends for a checksum: the low byte, then the high
  byte.
\<close>

definition swapped :: "16 word \<Rightarrow> byte list" where
  "swapped c = [ucast c, ucast (drop_bit 8 c)]"

section \<open>Switcher: sockets, session and commands\<close>

text \<open>
  A TCP socket of \<^verbatim>\<open>net\<close> has the property \<^verbatim>\<open>destroyed\<close>, which \<^verbatim>\<open>destroy()\<close>
  sets. A UDP socket of \<^verbatim>\<open>dgram\<close> has a handle until \<^verbatim>\<open>close()\<close> releases it, and
  \<^verbatim>\<open>close()\<close> on a socket without a handle throws
  \<^verbatim>\<open>ERR_SOCKET_DGRAM_NOT_RUNNING\<close>. A \<^verbatim>\<open>dgram\<close> socket has no property
  \<^verbatim>\<open>destroyed\<close>: reading it gives \<^verbatim>\<open>undefined\<close>.
\<close>

record net_socket =
  destroyed :: bool

record dgram_socket =
  handle :: bool

definition net_destroy :: "net_socket \<Rightarrow> net_socket" where
  "net_destroy k = k\<lparr>destroyed := True\<rparr>"

definition dgram_close :: "dgram_socket \<Rightarrow> js_error + dgram_socket" where
  "dgram_close u = (if handle u then Inr (u\<lparr>handle := False\<rparr>) else Inl ERR_SOCKET_DGRAM_NOT_RUNNING)"

definition dgram_destroyed :: "dgram_socket \<Rightarrow> js_val" where
  "dgram_destroyed u = Undefined"

text \<open>
  The fields of a \<^verbatim>\<open>Switcher\<close>, lines 105-116. The logger and the constant port
  are left out; logging has no effect on the state.
\<close>

record Switcher =
  device_id :: string
  switcher_ip :: string
  phone_id :: string
  device_pass :: string
  p_session :: js_val
  socket :: "net_socket option"
  status_socket :: "dgram_socket option"

text \<open>
  What the client emits, and what it does to the network. A status carries the
  name, the state, the remaining and the default seconds and the power; so does
  the object that \<^verbatim>\<open>status\<close> hands to its callback.
\<close>

datatype event =
    Status "code_unit list" nat "nat option" "nat option" "nat option"
  | Ready Switcher
  | Error_event
  | State_changed string
  | Duration_changed int

datatype effect =
    Connected
  | Written "byte list"
  | Emitted event
  | Called_back "code_unit list" nat "nat option" "nat option" "nat option"

text \<open>
  \<^verbatim>\<open>_hijack_status_report\<close>, lines 270-289: a bound UDP socket, and what its
  message handler emits for a datagram.
\<close>

definition hijack_status_report :: dgram_socket where
  "hijack_status_report = \<lparr>handle = True\<rparr>"

definition status_report_message :: "byte list \<Rightarrow> event option" where
  "status_report_message raw_msg =
     (if \<not> is_valid raw_msg then None
      else (let udp_message = new_SwitcherUDPMessage raw_msg
            in Some (Status (extract_device_name udp_message)
                       (extract_switch_state udp_message)
                       (extract_shutdown_remaining_seconds udp_message)
                       (extract_default_shutdown_seconds udp_message)
                       (extract_power_consumption udp_message))))"

definition new_Switcher :: "string \<Rightarrow> string \<Rightarrow> Switcher" where
  "new_Switcher dev_id ip =
     \<lparr>device_id = dev_id, switcher_ip = ip, phone_id = ''0000'', device_pass = ''00000000'',
      p_session = Null, socket = None, status_socket = Some hijack_status_report\<rparr>"

text \<open>
  \<^verbatim>\<open>close()\<close>, lines 216-227. The result is the error the call throws, if any,
  and the state it leaves.
\<close>

definition close :: "Switcher \<Rightarrow> js_error option \<times> Switcher" where
  "close s =
     (let s1 = (case socket s of
                  None \<Rightarrow> s
                | Some k \<Rightarrow> if \<not> destroyed k then s\<lparr>socket := Some (net_destroy k)\<rparr> else s)
      in (case status_socket s1 of
            None \<Rightarrow> (None, s1)
          | Some u \<Rightarrow>
              if \<not> truthy (dgram_destroyed u) then
                (case dgram_close u of
                   Inl e \<Rightarrow> (Some e, s1)
                 | Inr u' \<Rightarrow> (None, s1\<lparr>status_socket := Some u'\<rparr>))
              else (None, s1)))"

text \<open>
  The surroundings of a command: the clock in seconds, whether the next attempts
  to connect succeed, what follows the next writes (a reply, an error of the
  socket, or nothing), and the trace of what the client has done, latest last.
\<close>

datatype reply = Data "byte list" | SocketError | NoReply

record world =
  time_in_seconds :: nat
  connects :: "bool list"
  replies :: "reply list"
  trace :: "effect list"

text \<open>
  How an asynchronous function ends: it resolves with a value, it rejects with
  an error, or its promise never settles.
\<close>

datatype 'a outcome = Returned 'a | Threw js_error | Never

text \<open>\<^verbatim>\<open>_get_time_stamp()\<close>, lines 343-346.\<close>

definition get_time_stamp :: "world \<Rightarrow> js_error + string" where
  "get_time_stamp w =
     (case struct_pack_LI (int (time_in_seconds w)) of
        Inl e \<Rightarrow> Inl e
      | Inr b \<Rightarrow> Inr (toString_hex b))"

text \<open>
  \<^verbatim>\<open>_connect\<close> inside the \<^verbatim>\<open>try\<close> of \<^verbatim>\<open>_getsocket()\<close>, lines 233-268: a new
  connection becomes the socket of the client; a failed one clears the field,
  emits an error and throws.
\<close>

definition connect_socket :: "Switcher \<Rightarrow> world \<Rightarrow> (js_error + net_socket) \<times> Switcher \<times> world" where
  "connect_socket s w =
     (case connects w of
        True # rest \<Rightarrow>
          (Inr \<lparr>destroyed = False\<rparr>, s\<lparr>socket := Some \<lparr>destroyed = False\<rparr>\<rparr>,
           w\<lparr>connects := rest, trace := trace w @ [Connected]\<rparr>)
      | _ \<Rightarrow>
          (Inl ConnectionError, s\<lparr>socket := None\<rparr>,
           w\<lparr>connects := tl (connects w), trace := trace w @ [Emitted Error_event]\<rparr>))"

text \<open>\<^verbatim>\<open>_getsocket()\<close>, lines 229-249: the open socket if there is one.\<close>

definition getsocket :: "Switcher \<Rightarrow> world \<Rightarrow> (js_error + net_socket) \<times> Switcher \<times> world" where
  "getsocket s w =
     (case socket s of
        None \<Rightarrow> connect_socket s w
      | Some k \<Rightarrow> if \<not> destroyed k then (Inr k, s, w) else connect_socket s w)"

text \<open>The data of the login frame, lines 295-296, before it is signed.\<close>

definition login_data :: "Switcher \<Rightarrow> string \<Rightarrow> string" where
  "login_data s time_stamp =
     ''fef052000232a100'' @ P_SESSION @ ''340001000000000000000000'' @ time_stamp @
     ''00000000000000000000f0fe1c00'' @ phone_id s @ ''0000'' @ device_pass s @
     ''00000000000000000000000000000000000000000000000000000000''"

text \<open>
  \<^verbatim>\<open>_login()\<close>, lines 291-322. A cached session that is truthy is returned at
  once. Otherwise the login frame is built, signed and written, and the session
  is the text of bytes 8 to 11 of the reply. An exception inside the executor
  of the promise (it is an asynchronous function) leaves the promise unsettled.
  A rejection is caught: an error is emitted and the old session is returned.
\<close>

definition login ::
    "(byte list \<Rightarrow> 16 word \<Rightarrow> 16 word) \<Rightarrow> Switcher \<Rightarrow> world \<Rightarrow> js_val outcome \<times> Switcher \<times> world" where
  "login crc16ccitt s w =
     (if truthy (p_session s) then (Returned (p_session s), s, w)
      else (case get_time_stamp w of
              Inl e \<Rightarrow> (Never, s, w)
            | Inr time_stamp \<Rightarrow>
                (case crc_sign_full_packet_com_key crc16ccitt (login_data s time_stamp) P_KEY of
                   Inl e \<Rightarrow> (Never, s, w)
                 | Inr data \<Rightarrow>
                     (case getsocket s w of
                        (Inl err, s1, w1) \<Rightarrow>
                          (Returned (p_session s1), s1, w1\<lparr>trace := trace w1 @ [Emitted Error_event]\<rparr>)
                      | (Inr k, s1, w1) \<Rightarrow>
                          (let w2 = w1\<lparr>trace := trace w1 @ [Written (Buffer_from_hex data)]\<rparr>
                           in (case replies w2 of
                                 Data d # rest \<Rightarrow>
                                   (let result_session = substr (toString_hex d) 16 8
                                    in (Returned (Str result_session),
                                        s1\<lparr>p_session := Str result_session\<rparr>,
                                        w2\<lparr>replies := rest\<rparr>))
                               | SocketError # rest \<Rightarrow>
                                   (Returned (p_session s1),
                                    s1\<lparr>socket := Some (net_destroy k)\<rparr>,
                                    w2\<lparr>replies := rest, trace := trace w2 @ [Emitted Error_event]\<rparr>)
                               | _ \<Rightarrow> (Never, s1, w2\<lparr>replies := tl (replies w2)\<rparr>)))))))"

text \<open>The data of a power command, lines 326-327, before it is signed.\<close>

definition power_data :: "Switcher \<Rightarrow> js_val \<Rightarrow> string \<Rightarrow> string \<Rightarrow> string" where
  "power_data s session time_stamp command_type =
     ''fef05d0002320102'' @ js_to_string session @ ''340001000000000000000000'' @ time_stamp @
     ''00000000000000000000f0fe'' @ device_id s @ ''00'' @ phone_id s @ ''0000'' @
     device_pass s @
     ''000000000000000000000000000000000000000000000000000000000106000'' @ command_type"

text \<open>
  \<^verbatim>\<open>_run_power_command(command_type)\<close>, lines 324-341. The socket is asked for
  twice; only the second request is inside a \<^verbatim>\<open>try\<close>.
\<close>

definition run_power_command ::
    "(byte list \<Rightarrow> 16 word \<Rightarrow> 16 word) \<Rightarrow> string \<Rightarrow> Switcher \<Rightarrow> world \<Rightarrow> unit outcome \<times> Switcher \<times> world" where
  "run_power_command crc16ccitt command_type s w =
     (case login crc16ccitt s w of
        (Never, s1, w1) \<Rightarrow> (Never, s1, w1)
      | (Threw e, s1, w1) \<Rightarrow> (Threw e, s1, w1)
      | (Returned session, s1, w1) \<Rightarrow>
          (case get_time_stamp w1 of
             Inl e \<Rightarrow> (Threw e, s1, w1)
           | Inr time_stamp \<Rightarrow>
               (case crc_sign_full_packet_com_key crc16ccitt
                       (power_data s1 session time_stamp command_type) P_KEY of
                  Inl e \<Rightarrow> (Threw e, s1, w1)
                | Inr data \<Rightarrow>
                    (case getsocket s1 w1 of
                       (Inl err, s2, w2) \<Rightarrow> (Threw err, s2, w2)
                     | (Inr k, s2, w2) \<Rightarrow>
                         (case getsocket s2 w2 of
                            (Inl err, s3, w3) \<Rightarrow> (Returned (), s3, w3)
                          | (Inr k', s3, w3) \<Rightarrow>
                              (let w4 = w3\<lparr>trace := trace w3 @ [Written (Buffer_from_hex data)]\<rparr>
                               in (case replies w4 of
                                     Data d # rest \<Rightarrow>
                                       (Returned (), s3,
                                        w4\<lparr>replies := rest,
                                           trace := trace w4 @
                                             [Emitted (State_changed (substr command_type 0 1))]\<rparr>)
                                   | _ \<Rightarrow> (Returned (), s3, w4\<lparr>replies := tl (replies w4)\<rparr>))))))))"

text \<open>\<^verbatim>\<open>turn_off()\<close> and \<^verbatim>\<open>turn_on(duration)\<close>, lines 165-173.\<close>

definition turn_off ::
    "(byte list \<Rightarrow> 16 word \<Rightarrow> 16 word) \<Rightarrow> Switcher \<Rightarrow> world \<Rightarrow> unit outcome \<times> Switcher \<times> world" where
  "turn_off crc16ccitt s w = run_power_command crc16ccitt off_command s w"

definition turn_on ::
    "(byte list \<Rightarrow> 16 word \<Rightarrow> 16 word) \<Rightarrow> number \<Rightarrow> Switcher \<Rightarrow> world \<Rightarrow> unit outcome \<times> Switcher \<times> world" where
  "turn_on crc16ccitt duration s w =
     (case on_command duration of
        Inl e \<Rightarrow> (Threw e, s, w)
      | Inr command \<Rightarrow> run_power_command crc16ccitt command s w)"

text \<open>
  The data of \<^verbatim>\<open>set_default_shutdown\<close>, lines 178-179, before it is signed;
  \<open>auto_close\<close> is what \<^verbatim>\<open>_set_default_shutdown\<close> returned.
\<close>

definition shutdown_data :: "Switcher \<Rightarrow> js_val \<Rightarrow> string \<Rightarrow> js_val \<Rightarrow> string" where
  "shutdown_data s session time_stamp auto_close =
     ''fef05b0002320102'' @ js_to_string session @ ''340001000000000000000000'' @ time_stamp @
     ''00000000000000000000f0fe'' @ device_id s @ ''00'' @ phone_id s @ ''0000'' @
     device_pass s @
     ''00000000000000000000000000000000000000000000000000000000040400'' @
     js_to_string auto_close"

text \<open>
  \<^verbatim>\<open>set_default_shutdown(duration)\<close>, lines 175-188. The socket is asked for
  once, outside any \<^verbatim>\<open>try\<close>.
\<close>

definition set_default_shutdown ::
    "(byte list \<Rightarrow> 16 word \<Rightarrow> 16 word) \<Rightarrow> int \<Rightarrow> Switcher \<Rightarrow> world \<Rightarrow> unit outcome \<times> Switcher \<times> world" where
  "set_default_shutdown crc16ccitt duration s w =
     (case set_default_shutdown_value duration of
        Inl e \<Rightarrow> (Threw e, s, w)
      | Inr auto_close \<Rightarrow>
          (case login crc16ccitt s w of
             (Never, s1, w1) \<Rightarrow> (Never, s1, w1)
           | (Threw e, s1, w1) \<Rightarrow> (Threw e, s1, w1)
           | (Returned session, s1, w1) \<Rightarrow>
               (case get_time_stamp w1 of
                  Inl e \<Rightarrow> (Threw e, s1, w1)
                | Inr time_stamp \<Rightarrow>
                    (case crc_sign_full_packet_com_key crc16ccitt
                            (shutdown_data s1 session time_stamp auto_close) P_KEY of
                       Inl e \<Rightarrow> (Threw e, s1, w1)
                     | Inr data \<Rightarrow>
                         (case getsocket s1 w1 of
                            (Inl err, s2, w2) \<Rightarrow> (Threw err, s2, w2)
                          | (Inr k, s2, w2) \<Rightarrow>
                              (let w3 = w2\<lparr>trace := trace w2 @ [Written (Buffer_from_hex data)]\<rparr>
                               in (case replies w3 of
                                     Data d # rest \<Rightarrow>
                                       (Returned (), s2,
                                        w3\<lparr>replies := rest,
                                           trace := trace w3 @
                                             [Emitted (Duration_changed duration)]\<rparr>)
                                   | _ \<Rightarrow> (Returned (), s2, w3\<lparr>replies := tl (replies w3)\<rparr>))))))))"

text \<open>The data of \<^verbatim>\<open>status\<close>, line 192, before it is signed.\<close>

definition status_data :: "Switcher \<Rightarrow> js_val \<Rightarrow> string \<Rightarrow> string" where
  "status_data s session time_stamp =
     ''fef0300002320103'' @ js_to_string session @ ''340001000000000000000000'' @ time_stamp @
     ''00000000000000000000f0fe'' @ device_id s @ ''00''"

text \<open>What the handler of the reply to \<^verbatim>\<open>status\<close> hands to the callback, lines 197-212.\<close>

definition status_reply :: "byte list \<Rightarrow> effect" where
  "status_reply d =
     (let device_name = removeAll 0 (substr (toString_utf8 d) 40 32);
          state_hex = substr (toString_hex d) 150 4;
          state = (if state_hex = ''0000'' then OFF else ON);
          b = substr (toString_hex d) 178 8;
          remaining_seconds =
            parseInt16 (substr b 6 2 @ substr b 4 2 @ substr b 2 2 @ substr b 0 2);
          b1 = substr (toString_hex d) 194 8;
          default_shutdown_seconds =
            parseInt16 (substr b1 6 2 @ substr b1 4 2 @ substr b1 2 2 @ substr b1 0 2);
          b2 = substr (toString_hex d) 154 4;
          power_consumption = parseInt16 (substr b2 2 2 @ substr b2 0 2)
      in Called_back device_name state remaining_seconds default_shutdown_seconds
           power_consumption)"

text \<open>\<^verbatim>\<open>status(callback)\<close>, lines 190-214.\<close>

definition status ::
    "(byte list \<Rightarrow> 16 word \<Rightarrow> 16 word) \<Rightarrow> Switcher \<Rightarrow> world \<Rightarrow> unit outcome \<times> Switcher \<times> world" where
  "status crc16ccitt s w =
     (case login crc16ccitt s w of
        (Never, s1, w1) \<Rightarrow> (Never, s1, w1)
      | (Threw e, s1, w1) \<Rightarrow> (Threw e, s1, w1)
      | (Returned session, s1, w1) \<Rightarrow>
          (case get_time_stamp w1 of
             Inl e \<Rightarrow> (Threw e, s1, w1)
           | Inr time_stamp \<Rightarrow>
               (case crc_sign_full_packet_com_key crc16ccitt
                       (status_data s1 session time_stamp) P_KEY of
                  Inl e \<Rightarrow> (Threw e, s1, w1)
                | Inr data \<Rightarrow>
                    (case getsocket s1 w1 of
                       (Inl err, s2, w2) \<Rightarrow> (Threw err, s2, w2)
                     | (Inr k, s2, w2) \<Rightarrow>
                         (let w3 = w2\<lparr>trace := trace w2 @ [Written (Buffer_from_hex data)]\<rparr>
                          in (case replies w3 of
                                Data d # rest \<Rightarrow>
                                  (Returned (), s2,
                                   w3\<lparr>replies := rest, trace := trace w3 @ [status_reply d]\<rparr>)
                              | _ \<Rightarrow> (Returned (), s2, w3\<lparr>replies := tl (replies w3)\<rparr>)))))))"

text \<open>
  A call of one of the four methods of a \<^verbatim>\<open>Switcher\<close> that send a command, with
  its argument, and what the call does.
\<close>

datatype request =
    Turn_off
  | Turn_on number
  | Set_default_shutdown int
  | Query_status

fun perform ::
    "(byte list \<Rightarrow> 16 word \<Rightarrow> 16 word) \<Rightarrow> request \<Rightarrow> Switcher \<Rightarrow> world \<Rightarrow> unit outcome \<times> Switcher \<times> world" where
  "perform crc16ccitt Turn_off s w = turn_off crc16ccitt s w"
| "perform crc16ccitt (Turn_on duration) s w = turn_on crc16ccitt duration s w"
| "perform crc16ccitt (Set_default_shutdown duration) s w = set_default_shutdown crc16ccitt duration s w"
| "perform crc16ccitt Query_status s w = status crc16ccitt s w"

text \<open>
  The calls that get as far as building a frame: \<^verbatim>\<open>turn_on\<close> throws before that
  when \<^verbatim>\<open>_timer_value\<close> does.
\<close>

fun builds_frame :: "request \<Rightarrow> bool" where
  "builds_frame (Turn_on duration) = (case on_command duration of Inl e \<Rightarrow> False | Inr c \<Rightarrow> True)"
| "builds_frame (Set_default_shutdown duration) =
     (case set_default_shutdown_value duration of Inl e \<Rightarrow> False | Inr a \<Rightarrow> True)"
| "builds_frame c = True"



text \<open>
  The frames a trace holds, the frames written between two worlds, the place of
  the session in a command frame (bytes 8 to 11) and the operation code of a
  login frame (bytes 6 and 7).
\<close>

fun written :: "effect list \<Rightarrow> byte list list" where
  "written [] = []"
| "written (Written f # es) = f # written es"
| "written (e # es) = written es"

definition frames_since :: "world \<Rightarrow> world \<Rightarrow> byte list list" where
  "frames_since w w' = drop (length (written (trace w))) (written (trace w'))"

definition token_field :: "byte list \<Rightarrow> byte list" where
  "token_field frame = take 4 (drop 8 frame)"

definition is_login_frame :: "byte list \<Rightarrow> bool" where
  "is_login_frame frame = (take 2 (drop 6 frame) = [0xA1, 0x00])"

section \<open>Discovery\<close>






text \<open>
  The variables of one call of \<^verbatim>\<open>discover\<close>, lines 118-163: the
  \<^verbatim>\<open>identifier\<close> looked for (as \<open>ident\<close>), the variable \<^verbatim>\<open>socket\<close> (\<open>None\<close> for \<^verbatim>\<open>null\<close>), the milliseconds
  until the pending timer fires (\<open>None\<close> when no timer is pending) and the events
  of the proxy.
\<close>

record discovery =
  ident :: "code_unit list option"
  socket_var :: "dgram_socket option"
  timeout :: "nat option"
  emitted :: "event list"




text \<open>
  The message handler, lines 121-140, for a datagram from the address
  \<open>ipaddr\<close>; it runs while the socket is open.
\<close>

definition text_of :: "string \<Rightarrow> code_unit list" where
  "text_of s = map (\<lambda>c. word_of_nat (of_char c)) s"

definition on_message :: "byte list \<Rightarrow> string \<Rightarrow> discovery \<Rightarrow> discovery" where
  "on_message raw_msg ipaddr d =
     (case socket_var d of
        None \<Rightarrow> d
      | Some u \<Rightarrow>
          if \<not> handle u then d
          else if \<not> is_valid raw_msg then d
          else (let udp_message = new_SwitcherUDPMessage raw_msg;
                    dev_id = extract_device_id udp_message;
                    device_name = extract_device_name udp_message
                in if (case ident d of
                         None \<Rightarrow> False
                       | Some i \<Rightarrow> i \<noteq> [] \<and> i \<noteq> text_of dev_id \<and> i \<noteq> device_name \<and>
                                   i \<noteq> text_of ipaddr)
                   then d
                   else d\<lparr>emitted := emitted d @ [Ready (new_Switcher dev_id ipaddr)],
                          timeout := None, socket_var := None\<rparr>))"

text \<open>The handler of an error of the socket, lines 141-146.\<close>

definition on_socket_error :: "discovery \<Rightarrow> discovery" where
  "on_socket_error d =
     d\<lparr>emitted := emitted d @ [Error_event], timeout := None, socket_var := None\<rparr>"

text \<open>
  \<^verbatim>\<open>proxy.close\<close>, lines 155-161: it closes the socket and leaves the variable
  as it is.
\<close>

definition proxy_close :: "discovery \<Rightarrow> js_error option \<times> discovery" where
  "proxy_close d =
     (case socket_var d of
        None \<Rightarrow> (None, d)
      | Some u \<Rightarrow>
          (case dgram_close u of
             Inl e \<Rightarrow> (Some e, d)
           | Inr u' \<Rightarrow> (None, d\<lparr>socket_var := Some u'\<rparr>)))"

section \<open>The checksum\<close>

text \<open>
  Modelled from the spec: the module \<^verbatim>\<open>./crc\<close>, whose \<^verbatim>\<open>crc16ccitt\<close> the signer
  calls, is not among the sources. One of the 8 iterations the specification
  describes for a byte: "if the high bit is set, shift left and XOR with 0x1021,
  else shift left", on a 16-bit accumulator, for a polynomial \<open>poly\<close>.
\<close>

definition crc_shift :: "16 word \<Rightarrow> 16 word \<Rightarrow> 16 word" where
  "crc_shift poly acc = (if bit acc 15 then push_bit 1 acc XOR poly else push_bit 1 acc)"

text \<open>
  Modelled from the spec: the step of \<^verbatim>\<open>crc16ccitt\<close> (not among the sources) for
  one byte, "XOR byte into the high byte of a 16-bit accumulator, then for 8
  iterations" the shift above.
\<close>

definition crc_byte :: "16 word \<Rightarrow> 16 word \<Rightarrow> byte \<Rightarrow> 16 word" where
  "crc_byte poly acc b = (crc_shift poly ^^ 8) (acc XOR push_bit 8 (ucast b))"

text \<open>
  Modelled from the spec: \<^verbatim>\<open>crc16ccitt\<close> of \<^verbatim>\<open>./crc\<close> (not among the sources),
  "polynomial 0x1021, initial accumulator 0", the bytes in order, "no final
  reflection". The specification reads the second argument of the call,
  \<open>0x1021\<close>, as the polynomial.
\<close>

definition crc16ccitt :: "byte list \<Rightarrow> 16 word \<Rightarrow> 16 word" where
  "crc16ccitt bytes poly = foldl (crc_byte poly) 0 bytes"

text \<open>
  The reference: CRC-16/CCITT with the generator \<open>x^16 + x^12 + x^5 + 1\<close>
  (\<open>0x1021\<close>), initial value 0, no reflection and no final XOR, as the remainder
  of the long division of the message, bit by bit from the most significant bit
  of the first byte, followed by 16 zero bits. A step of the division takes the
  next bit into a register of 16 bits and subtracts the generator when a 1 is
  shifted out.
\<close>

definition division_step :: "16 word \<Rightarrow> bool \<Rightarrow> 16 word" where
  "division_step r b =
     (if bit r 15 then (push_bit 1 r OR of_bool b) XOR 0x1021 else push_bit 1 r OR of_bool b)"

definition bits_of :: "byte \<Rightarrow> bool list" where
  "bits_of b = map (bit b) (rev [0..<8])"

definition crc16_ccitt_reference :: "byte list \<Rightarrow> 16 word" where
  "crc16_ccitt_reference bytes =
     foldl division_step 0 (concat (map bits_of bytes) @ replicate 16 False)"

text \<open>
  A session after a login that returned the token \<open>01 02 03 04\<close>, with its
  connection open, and a world without replies.
\<close>

definition example_session :: Switcher where
  "example_session =
     \<lparr>device_id = ''123456'', switcher_ip = ''10.0.0.5'', phone_id = ''0000'',
      device_pass = ''00000000'', p_session = Str ''01020304'',
      socket = Some \<lparr>destroyed = False\<rparr>, status_socket = Some hijack_status_report\<rparr>"

definition example_world :: world where
  "example_world = \<lparr>time_in_seconds = 1600000000, connects = [], replies = [], trace = []\<rparr>"

section \<open>Reading byte fields\<close>

text \<open>
  What the specification calls a little-endian and a big-endian unsigned value of
  a run of bytes, and a dotted quad of four bytes. The theorems compare the
  program's decoders and encoders with these.
\<close>

fun le_uint :: "byte list \<Rightarrow> nat" where
  "le_uint [] = 0"
| "le_uint (b # bs) = unat b + 256 * le_uint bs"

fun be_uint :: "byte list \<Rightarrow> nat" where
  "be_uint [] = 0"
| "be_uint (b # bs) = unat b * 256 ^ length bs + be_uint bs"

definition dotted_quad :: "byte list \<Rightarrow> string" where
  "dotted_quad bs =
     (case bs of
        [a, b, c, d] \<Rightarrow>
          number_toString (unat a) @ ''.'' @ number_toString (unat b) @ ''.'' @
          number_toString (unat c) @ ''.'' @ number_toString (unat d)
      | _ \<Rightarrow> [])"

text \<open>
  A broadcast of 165 bytes with a value at every documented offset: the id
  \<open>123456\<close> at 18, the name \<open>Boiler\<close> at 40, the address 192.168.1.10 at 76, the
  state on at 133, 2576 W at 135, 600 s left at 147 and a default of 3600 s at 155.
\<close>

definition example_broadcast :: "byte list" where
  "example_broadcast =
     [0xFE, 0xF0] @ replicate 16 0 @ [0x12, 0x34, 0x56] @ replicate 19 0 @
     [0x42, 0x6F, 0x69, 0x6C, 0x65, 0x72] @ replicate 30 0 @ [192, 168, 1, 10] @
     replicate 53 0 @ [1, 0] @ [0x10, 0x0A] @ replicate 10 0 @ [0x58, 0x02, 0, 0] @
     replicate 4 0 @ [0x10, 0x0E, 0, 0] @ replicate 6 0"

text \<open>
  The same broadcast with the byte \<open>A5\<close> at offset 2, where the frames of the
  device carry their length, 165.
\<close>

definition example_broadcast_with_length :: "byte list" where
  "example_broadcast_with_length = example_broadcast[2 := 0xA5]"

text \<open>A broadcast of 165 bytes whose only text is the letter \<open>A\<close> at offset 20.\<close>

definition misplaced_name_frame :: "byte list" where
  "misplaced_name_frame = [0xFE, 0xF0] @ replicate 18 0 @ [0x41] @ replicate 144 0"

section \<open>Hex dumps: basic facts\<close>

lemma hex_value_hex_digit: "n < 16 \<Longrightarrow> hex_value (hex_digit n) = Some n"
proof -
  assume "n < 16"
  then have "n \<in> set [0..<16]" by simp
  then have "n \<in> {0, 1, 2, 3, 4, 5, 6, 7, 8, 9, 10, 11, 12, 13, 14, 15}"
    by (simp add: upt_rec numeral_eq_Suc)
  then show ?thesis
    by (auto simp add: hex_value_def hex_digit_def Let_def nth_Cons')
qed

lemma byte_div16: "unat (b :: byte) div 16 < 16"
proof -
  have "unat b < 2 ^ LENGTH(8)" by (rule unsigned_less)
  then show ?thesis by simp
qed

lemma Buffer_from_hex_toString_hex: "Buffer_from_hex (toString_hex bs) = bs"
  by (induction bs) (simp_all add: hex_value_hex_digit byte_div16)

lemma toString_hex_append: "toString_hex (xs @ ys) = toString_hex xs @ toString_hex ys"
  by (induction xs) simp_all

lemma take_toString_hex: "take (2 * n) (toString_hex bs) = toString_hex (take n bs)"
proof (induction bs arbitrary: n)
  case Nil
  show ?case by simp
next
  case (Cons b bs)
  show ?case
  proof (cases n)
    case 0
    then show ?thesis by simp
  next
    case (Suc m)
    then show ?thesis using Cons [of m] by simp
  qed
qed

lemma drop_toString_hex: "drop (2 * n) (toString_hex bs) = toString_hex (drop n bs)"
proof (induction bs arbitrary: n)
  case Nil
  show ?case by simp
next
  case (Cons b bs)
  show ?case
  proof (cases n)
    case 0
    then show ?thesis by simp
  next
    case (Suc m)
    then show ?thesis using Cons [of m] by simp
  qed
qed

lemma toString_hex_inj: "toString_hex xs = toString_hex ys \<Longrightarrow> xs = ys"
  by (metis Buffer_from_hex_toString_hex)

lemma magic_hex: "toString_hex [0xFE, 0xF0] = ''fef0''"
  by (simp add: hex_digit_def)



lemma substr_toString_hex:
  "substr (toString_hex bs) (2 * k) (2 * n) = toString_hex (take n (drop k bs))"
  by (simp add: substr_def take_toString_hex drop_toString_hex)

lemma byte_digits: "16 * (unat (b :: byte) div 16) + unat b mod 16 = unat b"
  by simp

lemma hex_prefix_toString_hex:
  "hex_prefix acc (toString_hex bs) = acc * 256 ^ length bs + be_uint bs"
proof (induction bs arbitrary: acc)
  case Nil
  show ?case by simp
next
  case (Cons b bs)
  have "16 * (16 * acc + unat b div 16) + unat b mod 16 = 256 * acc + unat b"
    using byte_digits [of b] by arith
  then show ?case
    by (simp add: hex_value_hex_digit byte_div16 Cons.IH algebra_simps)
qed

lemma parseInt16_toString_hex:
  "bs \<noteq> [] \<Longrightarrow> parseInt16 (toString_hex bs) = Some (be_uint bs)"
proof (cases bs)
  case Nil
  assume "bs \<noteq> []"
  with Nil show ?thesis by simp
next
  case (Cons b cs)
  have "hex_prefix (unat b div 16) (hex_digit (unat b mod 16) # toString_hex cs)
      = hex_prefix 0 (toString_hex (b # cs))"
    by (simp add: hex_value_hex_digit byte_div16)
  then show ?thesis
    using Cons by (simp add: parseInt16_def hex_value_hex_digit byte_div16 hex_prefix_toString_hex)
qed

lemma four_list: "length xs = 4 \<Longrightarrow> \<exists>a b c d. xs = [a, b, c, d]"
  by (auto simp add: length_Suc_conv numeral_eq_Suc)

lemma two_list: "length xs = 2 \<Longrightarrow> \<exists>a b. xs = [a, b]"
  by (auto simp add: length_Suc_conv numeral_eq_Suc)

lemma le_field4:
  assumes "length sec = 4"
  shows "parseInt16 (substr (toString_hex sec) 6 2 @ substr (toString_hex sec) 4 2 @
            substr (toString_hex sec) 2 2 @ substr (toString_hex sec) 0 2) = Some (le_uint sec)"
proof -
  obtain a b c d where sec: "sec = [a, b, c, d]" using four_list [OF assms] by blast
  have eq: "substr (toString_hex sec) 6 2 @ substr (toString_hex sec) 4 2 @
            substr (toString_hex sec) 2 2 @ substr (toString_hex sec) 0 2 = toString_hex [d, c, b, a]"
    by (simp add: sec substr_def)
  have "parseInt16 (toString_hex [d, c, b, a]) = Some (be_uint [d, c, b, a])"
    by (rule parseInt16_toString_hex) simp
  moreover have "be_uint [d, c, b, a] = le_uint sec" by (simp add: sec)
  ultimately show ?thesis by (simp only: eq)
qed

lemma le_field2:
  assumes "length sec = 2"
  shows "parseInt16 (substr (toString_hex sec) 2 2 @ substr (toString_hex sec) 0 2) = Some (le_uint sec)"
proof -
  obtain a b where sec: "sec = [a, b]" using two_list [OF assms] by blast
  have eq: "substr (toString_hex sec) 2 2 @ substr (toString_hex sec) 0 2 = toString_hex [b, a]"
    by (simp add: sec substr_def)
  have "parseInt16 (toString_hex [b, a]) = Some (be_uint [b, a])"
    by (rule parseInt16_toString_hex) simp
  moreover have "be_uint [b, a] = le_uint sec" by (simp add: sec)
  ultimately show ?thesis by (simp only: eq)
qed

lemma be_field4:
  assumes "length sec = 4"
  shows "parseInt16 (substr (toString_hex sec) 0 2 @ substr (toString_hex sec) 2 2 @
            substr (toString_hex sec) 4 2 @ substr (toString_hex sec) 6 2) = Some (be_uint sec)"
proof -
  obtain a b c d where sec: "sec = [a, b, c, d]" using four_list [OF assms] by blast
  have eq: "substr (toString_hex sec) 0 2 @ substr (toString_hex sec) 2 2 @
            substr (toString_hex sec) 4 2 @ substr (toString_hex sec) 6 2 = toString_hex sec"
    by (simp add: sec substr_def)
  have "parseInt16 (toString_hex sec) = Some (be_uint sec)"
    by (rule parseInt16_toString_hex) (simp add: sec)
  then show ?thesis by (simp only: eq)
qed

lemma ff_mask: "(0xFF :: 32 word) = mask 8"
  by (simp add: mask_eq_exp_minus_1)

lemma low_byte_of_shift:
  "k \<le> 24 \<Longrightarrow> signed_drop_bit k (w :: 32 word) AND 0xFF = drop_bit k w AND 0xFF"
  unfolding ff_mask
  by (rule bit_word_eqI) (auto simp add: bit_simps)

lemma unat_low_byte: "unat (drop_bit k (w :: 32 word) AND 0xFF) = unat w div 2 ^ k mod 256"
proof -
  have "drop_bit k w AND 0xFF = take_bit 8 (drop_bit k w)"
    unfolding ff_mask by (simp only: take_bit_eq_mask)
  then have "unat (drop_bit k w AND 0xFF) = take_bit 8 (drop_bit k (unat w))"
    by (simp only: unsigned_take_bit_eq unat_drop_bit_eq)
  then show ?thesis
    by (simp add: take_bit_eq_mod drop_bit_eq_div)
qed

lemma split256: "x < 256 \<Longrightarrow> (x + 256 * y) mod 256 = x \<and> (x + 256 * y) div 256 = (y::nat)"
  by simp

lemma inet_ntoa_be:
  "inet_ntoa (Some (be_uint [a, b, c, d])) = dotted_quad [a, b, c, d]"
proof -
  define m2 where "m2 = unat b + 256 * unat a"
  define m1 where "m1 = unat c + 256 * m2"
  define n where "n = unat d + 256 * m1"
  define w where "w = (word_of_nat n :: 32 word)"
  have lt: "unat a < 256" "unat b < 256" "unat c < 256" "unat d < 256"
    using unsigned_less [of a, where 'a = nat] unsigned_less [of b, where 'a = nat]
      unsigned_less [of c, where 'a = nat] unsigned_less [of d, where 'a = nat] by simp_all
  have be: "be_uint [a, b, c, d] = n"
    by (simp add: n_def m1_def m2_def)
  have d: "n mod 256 = unat d" and n1: "n div 256 = m1"
    unfolding n_def using split256 [OF lt(4), of m1] by simp_all
  have c: "m1 mod 256 = unat c" and n2: "m1 div 256 = m2"
    unfolding m1_def using split256 [OF lt(3), of m2] by simp_all
  have b: "m2 mod 256 = unat b" and n3: "m2 div 256 = unat a"
    unfolding m2_def using split256 [OF lt(2), of "unat a"] by simp_all
  have "n < 2 ^ 32" using lt by (simp add: n_def m1_def m2_def)
  then have uw: "unat w = n" by (simp add: w_def unat_of_nat)
  have s8: "n div 2 ^ 8 mod 256 = unat c" using n1 c by simp
  have "n div 2 ^ 16 = n div 256 div 256" by (simp add: div_mult2_eq)
  then have s16: "n div 2 ^ 16 mod 256 = unat b" using n1 n2 b by simp
  have "n div 2 ^ 24 = n div 256 div 256 div 256" by (simp add: div_mult2_eq)
  then have s24: "n div 2 ^ 24 mod 256 = unat a" using n1 n2 n3 lt by simp
  have A: "unat (signed_drop_bit 24 w AND 0xFF) = unat a"
    using s24 by (simp only: low_byte_of_shift [of 24 w, simplified] unat_low_byte uw)
  have B: "unat (signed_drop_bit 16 w AND 0xFF) = unat b"
    using s16 by (simp only: low_byte_of_shift [of 16 w, simplified] unat_low_byte uw)
  have C: "unat (signed_drop_bit 8 w AND 0xFF) = unat c"
    using s8 by (simp only: low_byte_of_shift [of 8 w, simplified] unat_low_byte uw)
  have D: "unat (w AND 0xFF) = unat d"
    using d unat_low_byte [of 0 w] by (simp add: uw)
  show ?thesis
    unfolding be inet_ntoa_def dotted_quad_def ToInt32_def option.case w_def [symmetric] Let_def
    by (simp only: A B C D list.case)
qed

section \<open>Validation of a broadcast\<close>

lemma is_valid_iff: "is_valid buf \<longleftrightarrow> (take 2 buf = [0xFE, 0xF0] \<or> length buf = 165)"
proof -
  have "take 4 (toString_hex buf) = toString_hex (take 2 buf)"
    using take_toString_hex [of 2 buf] by simp
  then have "take 4 (toString_hex buf) = ''fef0'' \<longleftrightarrow> take 2 buf = [0xFE, 0xF0]"
    using toString_hex_inj magic_hex by metis
  then show ?thesis by (auto simp add: is_valid_def substr_def)
qed

text \<open>
  Claim C1. The claim wants \<open>is_valid\<close> true exactly for 165 bytes that start
  with \<open>0xFE 0xF0\<close>. The program negates a conjunction of two inequalities, so
  one of the two conditions is enough: 165 zero bytes are accepted, and so are
  the two magic bytes alone.
\<close>

theorem is_valid_accepts_either:
  "is_valid (replicate 165 0) \<and> take 2 (replicate 165 (0 :: byte)) \<noteq> [0xFE, 0xF0] \<and>
   is_valid [0xFE, 0xF0] \<and> length [0xFE, 0xF0 :: byte] \<noteq> 165"
proof -
  have "take 2 (replicate 165 (0 :: byte)) = [0, 0]"
    by (simp add: take_Suc_conv_app_nth numeral_2_eq_2)
  then show ?thesis by (simp add: is_valid_iff)
qed

section \<open>Durations\<close>



lemma set_default_shutdown_value_in_range:
  assumes "3600 \<le> seconds" and "seconds \<le> 86340"
  shows "set_default_shutdown_value seconds =
    Inr (Str (toString_hex (le_bytes32 (word_of_int seconds))))"
  using assms by (simp add: set_default_shutdown_value_def struct_pack_LI_def)

lemma set_default_shutdown_value_out_of_range:
  assumes "seconds < 3600 \<or> 86340 < seconds"
  shows "set_default_shutdown_value seconds = Inr Undefined"
  using assms by (auto simp add: set_default_shutdown_value_def)

text \<open>
  Claim C2. The claim wants every number of seconds clamped into 3600..86340 and
  then encoded. The program encodes only what is already in the range; below
  and above it the helper assigns the bound to its parameter and returns
  nothing, so its value is \<open>undefined\<close> for 100 and for 999999. 7200 is encoded
  as the bytes \<open>20 1c 00 00\<close>.
\<close>

theorem set_default_shutdown_value_unclamped:
  "set_default_shutdown_value 100 = Inr Undefined \<and>
   set_default_shutdown_value 999999 = Inr Undefined \<and>
   set_default_shutdown_value 7200 = Inr (Str ''201c0000'')"
  by (simp add: set_default_shutdown_value_def struct_pack_LI_def le_bytes32_def hex_digit_def)

section \<open>Decoding a broadcast\<close>

lemma data_hex_new [simp]: "data_hex (new_SwitcherUDPMessage buf) = toString_hex buf"
  by (simp add: new_SwitcherUDPMessage_def)

lemma data_str_new [simp]: "data_str (new_SwitcherUDPMessage buf) = toString_utf8 buf"
  by (simp add: new_SwitcherUDPMessage_def)

lemma zeros_hex: "toString_hex [0, 0] = ''0000''"
  by (simp add: hex_digit_def)


lemma extract_device_id_at_18: "extract_device_id (new_SwitcherUDPMessage buf) = toString_hex (take 3 (drop 18 buf))"
    using substr_toString_hex [of buf 18 3] by (simp add: extract_device_id_def)

lemma extract_power_consumption_at_135:
  assumes len: "length buf = 165"
  shows "extract_power_consumption (new_SwitcherUDPMessage buf) =
      Some (le_uint (take 2 (drop 135 buf)))"
proof -
  have "substr (toString_hex buf) 270 4 = toString_hex (take 2 (drop 135 buf))"
    using substr_toString_hex [of buf 135 2] by simp
  moreover have "length (take 2 (drop 135 buf)) = 2" using len by simp
  ultimately show ?thesis
    by (simp add: extract_power_consumption_def Let_def le_field2)
qed



lemma extract_switch_state_at_133: "extract_switch_state (new_SwitcherUDPMessage buf) =
      (if take 2 (drop 133 buf) = [0, 0] then OFF else ON)"
proof -
  have "substr (toString_hex buf) 266 4 = toString_hex (take 2 (drop 133 buf))"
    using substr_toString_hex [of buf 133 2] by simp
  moreover have "toString_hex (take 2 (drop 133 buf)) = ''0000'' \<longleftrightarrow> take 2 (drop 133 buf) = [0, 0]"
    using toString_hex_inj [of "take 2 (drop 133 buf)" "[0, 0]"] zeros_hex by metis
  ultimately show ?thesis
    by (simp only: extract_switch_state_def data_hex_new)
qed

lemma extract_shutdown_remaining_seconds_at_147:
  assumes len: "length buf = 165"
  shows "extract_shutdown_remaining_seconds (new_SwitcherUDPMessage buf) =
      Some (le_uint (take 4 (drop 147 buf)))"
proof -
  have "substr (toString_hex buf) 294 8 = toString_hex (take 4 (drop 147 buf))"
    using substr_toString_hex [of buf 147 4] by simp
  moreover have "length (take 4 (drop 147 buf)) = 4" using len by simp
  ultimately show ?thesis
    by (simp add: extract_shutdown_remaining_seconds_def Let_def le_field4)
qed

lemma extract_ip_addr_at_76:
  assumes len: "length buf = 165"
  shows "extract_ip_addr (new_SwitcherUDPMessage buf) = dotted_quad (take 4 (drop 76 buf))"
proof -
  have sec: "substr (toString_hex buf) 152 8 = toString_hex (take 4 (drop 76 buf))"
    using substr_toString_hex [of buf 76 4] by simp
  have "length (take 4 (drop 76 buf)) = 4" using len by simp
  then obtain a b c d where q: "take 4 (drop 76 buf) = [a, b, c, d]"
    using four_list by blast
  have bf: "parseInt16 (substr (toString_hex [a, b, c, d]) 0 2 @ substr (toString_hex [a, b, c, d]) 2 2 @
            substr (toString_hex [a, b, c, d]) 4 2 @ substr (toString_hex [a, b, c, d]) 6 2)
          = Some (be_uint [a, b, c, d])"
    by (rule be_field4) simp
  have "extract_ip_addr (new_SwitcherUDPMessage buf) = inet_ntoa (Some (be_uint [a, b, c, d]))"
    unfolding extract_ip_addr_def Let_def data_hex_new sec q
    by (simp only: bf)
  then show ?thesis
    by (simp only: inet_ntoa_be q)
qed

lemma example_broadcast_length: "length example_broadcast = 165"
  by (simp add: example_broadcast_def)

lemma example_id: "take 3 (drop 18 example_broadcast) = [0x12, 0x34, 0x56]" by (simp add: example_broadcast_def)
lemma example_ip: "take 4 (drop 76 example_broadcast) = [192, 168, 1, 10]" by (simp add: example_broadcast_def)

lemma extract_default_shutdown_seconds_at_155:
  assumes len: "length buf = 165"
  shows "extract_default_shutdown_seconds (new_SwitcherUDPMessage buf) =
      Some (le_uint (take 4 (drop 155 buf)))"
proof -
  have "substr (toString_hex buf) 310 8 = toString_hex (take 4 (drop 155 buf))"
    using substr_toString_hex [of buf 155 4] by simp
  moreover have "length (take 4 (drop 155 buf)) = 4" using len by simp
  ultimately show ?thesis
    by (simp add: extract_default_shutdown_seconds_def Let_def le_field4)
qed

lemma example_state: "take 2 (drop 133 example_broadcast) = [1, 0]" by (simp add: example_broadcast_def)
lemma example_power: "take 2 (drop 135 example_broadcast) = [0x10, 0x0A]" by (simp add: example_broadcast_def)
lemma example_remaining: "take 4 (drop 147 example_broadcast) = [0x58, 0x02, 0, 0]" by (simp add: example_broadcast_def)
lemma example_default: "take 4 (drop 155 example_broadcast) = [0x10, 0x0E, 0, 0]" by (simp add: example_broadcast_def)

lemma example_dotted_quad: "dotted_quad [192, 168, 1, 10] = ''192.168.1.10''"
  by (simp add: dotted_quad_def number_toString.simps hex_digit_def)


text \<open>
  Claim C6. For a broadcast of 165 bytes, every decoded field but the name is the
  value at its documented byte offset: the device id is the hex text of the 3
  bytes at 18; the state is \<open>OFF\<close> exactly when the 2 bytes at 133 are zero; the
  power is the little-endian value of the 2 bytes at 135; the remaining and the
  default shutdown seconds are the little-endian values of the 4 bytes at 147
  and at 155; the address is the dotted quad of the 4 bytes at 76.
\<close>

theorem broadcast_fields:
  assumes len: "length buf = 165"
  shows "extract_device_id (new_SwitcherUDPMessage buf) = toString_hex (take 3 (drop 18 buf)) \<and>
    extract_switch_state (new_SwitcherUDPMessage buf) = (if take 2 (drop 133 buf) = [0, 0] then OFF else ON) \<and>
    extract_power_consumption (new_SwitcherUDPMessage buf) = Some (le_uint (take 2 (drop 135 buf))) \<and>
    extract_shutdown_remaining_seconds (new_SwitcherUDPMessage buf) = Some (le_uint (take 4 (drop 147 buf))) \<and>
    extract_default_shutdown_seconds (new_SwitcherUDPMessage buf) = Some (le_uint (take 4 (drop 155 buf))) \<and>
    extract_ip_addr (new_SwitcherUDPMessage buf) = dotted_quad (take 4 (drop 76 buf))"
  using extract_device_id_at_18 [of buf] extract_switch_state_at_133 [of buf] extract_power_consumption_at_135 [OF len] extract_shutdown_remaining_seconds_at_147 [OF len] extract_default_shutdown_seconds_at_155 [OF len] extract_ip_addr_at_76 [OF len]
  by (intro conjI)

theorem broadcast_fields_witness:
  "length example_broadcast = 165 \<and>
   extract_device_id (new_SwitcherUDPMessage example_broadcast) = ''123456'' \<and>
   extract_switch_state (new_SwitcherUDPMessage example_broadcast) = ON \<and>
   extract_power_consumption (new_SwitcherUDPMessage example_broadcast) = Some 2576 \<and>
   extract_shutdown_remaining_seconds (new_SwitcherUDPMessage example_broadcast) = Some 600 \<and>
   extract_default_shutdown_seconds (new_SwitcherUDPMessage example_broadcast) = Some 3600 \<and>
   extract_ip_addr (new_SwitcherUDPMessage example_broadcast) = ''192.168.1.10''"
proof -
  have h: "toString_hex [0x12, 0x34, 0x56] = ''123456''" by (simp add: hex_digit_def)
  show ?thesis
    using broadcast_fields [OF example_broadcast_length]
    unfolding example_id example_state example_power example_remaining example_default example_ip example_dotted_quad h
    by (simp add: example_broadcast_length)
qed

section \<open>Signing\<close>

lemma be_bytes32_of_crc:
  "be_bytes32 (ucast (c :: 16 word)) = [0, 0, ucast (drop_bit 8 c), ucast c]"
proof -
  have a: "(ucast (drop_bit 24 (ucast c :: 32 word)) :: byte) = 0"
    by (rule bit_word_eqI) (auto simp add: bit_simps dest: bit_imp_le_length)
  have b: "(ucast (drop_bit 16 (ucast c :: 32 word)) :: byte) = 0"
    by (rule bit_word_eqI) (auto simp add: bit_simps dest: bit_imp_le_length)
  have c: "(ucast (drop_bit 8 (ucast c :: 32 word)) :: byte) = ucast (drop_bit 8 c)"
    by (rule bit_word_eqI) (auto simp add: bit_simps)
  have d: "(ucast (ucast c :: 32 word) :: byte) = ucast c"
    by (rule bit_word_eqI) (auto simp add: bit_simps)
  show ?thesis by (simp only: be_bytes32_def a b c d)
qed

lemma struct_pack_BI_crc:
  "struct_pack_BI (uint (c :: 16 word)) = Inr [0, 0, ucast (drop_bit 8 c), ucast c]"
proof -
  have "uint c < 2 ^ 16" using unsigned_less [of c, where 'a = int] by simp
  then have "uint c < 2 ^ 32" by simp
  moreover have "(word_of_int (uint c) :: 32 word) = ucast c" by (rule ucast_eq [symmetric])
  ultimately show ?thesis
    by (simp add: struct_pack_BI_def be_bytes32_of_crc)
qed

lemma trailer_of_packed:
  "substr (toString_hex [0, 0, h, l]) 6 2 @ substr (toString_hex [0, 0, h, l]) 4 2 @ rest =
     toString_hex [l, h] @ rest"
  by (simp add: substr_def)

lemma sign_string:
  "crc_sign_full_packet_com_key crc p_data p_key =
     Inr (p_data @ toString_hex (swapped (crc (Buffer_from_hex p_data) 0x1021)) @
          toString_hex (swapped (crc (Buffer_from_hex
             (toString_hex (swapped (crc (Buffer_from_hex p_data) 0x1021)) @ toString_hex (Buffer_from p_key))) 0x1021)))"
proof -
  have t: "substr (toString_hex [0, 0, h, l]) 6 2 @ substr (toString_hex [0, 0, h, l]) 4 2 = toString_hex [l, h]"
    for h l using trailer_of_packed [of h l "[]"] by (simp only: append_Nil2)
  show ?thesis
    unfolding crc_sign_full_packet_com_key_def struct_pack_BI_crc sum.case Let_def swapped_def
      trailer_of_packed t
    by (simp only: append_assoc)
qed


lemma key_bytes: "Buffer_from P_KEY = replicate 32 0x30"
proof -
  have "replicate 32 (0x30 :: byte) = map (\<lambda>c. word_of_nat (of_char c)) P_KEY"
    unfolding P_KEY_def by (simp add: numeral_eq_Suc)
  then show ?thesis by (simp only: Buffer_from_def)
qed


text \<open>
  Claim C3. Signing a frame \<open>f\<close> (handed to the signer as its hex text) gives
  \<open>f\<close> followed by exactly four bytes: the checksum of \<open>f\<close>, low byte first,
  and then the checksum of those two bytes followed by the key, low byte first.
  The key is 32 bytes, each the character \<open>0\<close>. On any text \<open>p_data\<close> the
  signer appends the hex text of these four bytes, computed from the bytes the
  text decodes to, and leaves the text before them as it is. This holds for
  every function \<open>crc\<close> in the place of \<^verbatim>\<open>crc16ccitt\<close>.
\<close>

theorem sign_appends_four_bytes:
  "crc_sign_full_packet_com_key crc (toString_hex f) P_KEY =
     Inr (toString_hex
       (f @ swapped (crc f 0x1021) @ swapped (crc (swapped (crc f 0x1021) @ Buffer_from P_KEY) 0x1021))) \<and>
   length (swapped (crc f 0x1021) @ swapped (crc (swapped (crc f 0x1021) @ Buffer_from P_KEY) 0x1021)) = 4 \<and>
   Buffer_from P_KEY = replicate 32 0x30 \<and>
   crc_sign_full_packet_com_key crc p_data P_KEY =
     Inr (p_data @ toString_hex (swapped (crc (Buffer_from_hex p_data) 0x1021)) @
          toString_hex (swapped (crc (swapped (crc (Buffer_from_hex p_data) 0x1021) @ Buffer_from P_KEY)
            0x1021)))"
proof -
  have "crc_sign_full_packet_com_key crc (toString_hex f) P_KEY =
     Inr (toString_hex
       (f @ swapped (crc f 0x1021) @ swapped (crc (swapped (crc f 0x1021) @ Buffer_from P_KEY) 0x1021)))"
    by (simp only: sign_string Buffer_from_hex_toString_hex toString_hex_append [symmetric])
  moreover have "length (swapped (crc f 0x1021) @ swapped (crc (swapped (crc f 0x1021) @ Buffer_from P_KEY) 0x1021)) = 4"
    by (simp add: swapped_def)
  moreover have "crc_sign_full_packet_com_key crc p_data P_KEY =
     Inr (p_data @ toString_hex (swapped (crc (Buffer_from_hex p_data) 0x1021)) @
          toString_hex (swapped (crc (swapped (crc (Buffer_from_hex p_data) 0x1021) @ Buffer_from P_KEY)
            0x1021)))"
    by (simp only: sign_string Buffer_from_hex_toString_hex toString_hex_append [symmetric])
  ultimately show ?thesis
    using key_bytes by (intro conjI)
qed

section \<open>The device name\<close>

lemma ascii_le: "(b :: byte) < 0x80 \<Longrightarrow> b \<le> 0x7F"
  by (simp add: word_le_nat_alt word_less_nat_alt)

lemma ascii_below_lead: "(b :: byte) < 0x80 \<Longrightarrow> b < 0x90"
  by (simp add: word_less_nat_alt)

lemma utf8_decode_ascii:
  "b < 0x80 \<Longrightarrow> utf8_decode 0 cp lo hi (b # bs) = ucast b # utf8_decode 0 0 0x80 0xBF bs"
  by (simp add: ascii_le)

lemma utf8_decode_ascii_run:
  "\<forall>b \<in> set xs. b < 0x80 \<Longrightarrow>
     utf8_decode 0 0 0x80 0xBF (xs @ ys) = map ucast xs @ utf8_decode 0 0 0x80 0xBF ys"
  by (induction xs) (simp_all add: utf8_decode_ascii del: utf8_decode.simps)

lemma utf8_decode_magic:
  "b < 0x80 \<Longrightarrow> utf8_decode 0 0 0x80 0xBF (0xFE # 0xF0 # b # bs) =
     0xFFFD # 0xFFFD # utf8_decode 0 0 0x80 0xBF (b # bs)"
proof -
  assume b: "b < 0x80"
  have 1: "utf8_decode 0 0 0x80 0xBF (0xFE # 0xF0 # b # bs) = 0xFFFD # utf8_decode 0 0 0x80 0xBF (0xF0 # b # bs)"
    by (simp del: utf8_decode.simps add: utf8_decode.simps(2) [of 0 0 "0x80" "0xBF" "0xFE"])
  have 2: "utf8_decode 0 0 0x80 0xBF (0xF0 # b # bs) = utf8_decode 3 0 0x90 0xBF (b # bs)"
    by (simp del: utf8_decode.simps add: utf8_decode.simps(2) [of 0 0 "0x80" "0xBF" "0xF0"])
  have 3: "utf8_decode 3 0 0x90 0xBF (b # bs) = 0xFFFD # utf8_decode 0 0 0x80 0xBF (b # bs)"
    using ascii_below_lead [OF b]
    by (simp del: utf8_decode.simps add: utf8_decode.simps(2) [of 3 0 "0x90" "0xBF" b])
  show ?thesis by (simp only: 1 2 3)
qed


lemma removeAll_nul_ucast:
  "removeAll 0 (map ucast bs) = map (ucast :: byte \<Rightarrow> code_unit) (removeAll 0 bs)"
proof -
  have cast_id: "(ucast (ucast b :: code_unit) :: byte) = b" for b :: byte
    by (rule bit_word_eqI) (auto simp add: bit_simps)
  have "(ucast b :: code_unit) = 0 \<longleftrightarrow> b = 0" for b :: byte
  proof
    assume "(ucast b :: code_unit) = 0"
    then have "(ucast (ucast b :: code_unit) :: byte) = ucast (0 :: code_unit)" by (rule arg_cong)
    then show "b = 0" by (simp only: cast_id ucast_0)
  next
    assume "b = 0"
    then show "(ucast b :: code_unit) = 0" by simp
  qed
  then show ?thesis by (induction bs) simp_all
qed

lemma decode_after_magic:
  assumes magic: "take 2 buf = [0xFE, 0xF0]"
    and len: "72 \<le> length buf"
    and ascii: "\<forall>b \<in> set (take 70 (drop 2 buf)). b < 0x80"
  shows "toString_utf8 buf =
    0xFFFD # 0xFFFD # map ucast (take 70 (drop 2 buf)) @ utf8_decode 0 0 0x80 0xBF (drop 72 buf)"
proof -
  define xs where "xs = take 70 (drop 2 buf)"
  define rest where "rest = drop 72 buf"
  have "buf = take 2 buf @ drop 2 buf" by simp
  also have "drop 2 buf = take 70 (drop 2 buf) @ drop 70 (drop 2 buf)"
    by (simp only: append_take_drop_id)
  also have "drop 70 (drop 2 buf) = rest" by (simp add: rest_def)
  finally have buf: "buf = 0xFE # 0xF0 # xs @ rest"
    by (simp add: magic xs_def)
  have "length xs = 70" using len by (simp add: xs_def)
  then obtain b xs' where xs: "xs = b # xs'" by (cases xs) simp_all
  have b: "b < 0x80" using ascii by (simp add: xs_def [symmetric] xs)
  have "toString_utf8 buf = utf8_decode 0 0 0x80 0xBF (0xFE # 0xF0 # b # (xs' @ rest))"
    by (simp only: toString_utf8_def buf xs append_Cons)
  also have "\<dots> = 0xFFFD # 0xFFFD # utf8_decode 0 0 0x80 0xBF (xs @ rest)"
    by (simp only: utf8_decode_magic [OF b] xs append_Cons)
  also have "utf8_decode 0 0 0x80 0xBF (xs @ rest) = map ucast xs @ utf8_decode 0 0 0x80 0xBF rest"
    using ascii by (simp only: utf8_decode_ascii_run xs_def [symmetric])
  finally show ?thesis by (simp only: xs_def rest_def)
qed

lemma device_name_ascii:
  assumes magic: "take 2 buf = [0xFE, 0xF0]"
    and len: "72 \<le> length buf"
    and ascii: "\<forall>b \<in> set (take 70 (drop 2 buf)). b < 0x80"
  shows "extract_device_name (new_SwitcherUDPMessage buf) =
    map ucast (removeAll 0 (take 32 (drop 40 buf)))"
proof -
  define xs where "xs = take 70 (drop 2 buf)"
  define tail where "tail = utf8_decode 0 0 0x80 0xBF (drop 72 buf)"
  have lx: "length xs = 70" using len by (simp add: xs_def)
  have str: "toString_utf8 buf = 0xFFFD # 0xFFFD # map ucast xs @ tail"
    unfolding xs_def tail_def by (rule decode_after_magic [OF magic len ascii])
  have "drop 40 (0xFFFD # 0xFFFD # map ucast xs @ tail) = drop 38 (map ucast xs @ tail)"
    by simp
  also have "\<dots> = map ucast (drop 38 xs) @ tail"
    using lx by (simp add: drop_map)
  finally have "substr (toString_utf8 buf) 40 32 = take 32 (map ucast (drop 38 xs) @ tail)"
    by (simp only: substr_def str)
  also have "\<dots> = map ucast (take 32 (drop 38 xs))"
    using lx by (simp add: take_map)
  also have "take 32 (drop 38 xs) = take 32 (drop 40 buf)"
    by (simp add: xs_def drop_take)
  finally show ?thesis
    by (simp add: extract_device_name_def new_SwitcherUDPMessage_def removeAll_nul_ucast)
qed


lemma removeAll_replicate: "removeAll x (replicate n x) = []"
  by (induction n) simp_all

lemma list_all_replicate: "P x \<Longrightarrow> list_all P (replicate n x)"
  by (induction n) simp_all

lemma utf8_decode_split:
  "b < 0x80 \<Longrightarrow> (need \<noteq> 0 \<longrightarrow> 0x80 \<le> lo) \<Longrightarrow>
     utf8_decode need cp lo hi (xs @ b # ys) =
     utf8_decode need cp lo hi xs @ utf8_decode 0 0 0x80 0xBF (b # ys)"
proof (induction need cp lo hi xs rule: utf8_decode.induct)
  case (1 need cp lo hi)
  show ?case
  proof (cases "need = 0")
    case True
    then show ?thesis using 1 by (simp add: ascii_le)
  next
    case False
    then have "b < lo" using 1 by auto
    then show ?thesis using False 1 by (simp add: ascii_le)
  qed
next
  case (2 need cp lo hi a bs)
  then show ?case
    by (simp add: ascii_le)
qed

lemma toString_utf8_split:
  assumes "j < length buf" and "buf ! j < 0x80"
  shows "toString_utf8 buf = toString_utf8 (take j buf) @ toString_utf8 (drop j buf)"
proof -
  have d: "drop j buf = buf ! j # drop (Suc j) buf"
    using assms(1) by (simp add: Cons_nth_drop_Suc)
  have "buf = take j buf @ buf ! j # drop (Suc j) buf"
    using d by (metis append_take_drop_id)
  then have "toString_utf8 buf = utf8_decode 0 0 0x80 0xBF (take j buf @ buf ! j # drop (Suc j) buf)"
    by (simp only: toString_utf8_def)
  also have "\<dots> = utf8_decode 0 0 0x80 0xBF (take j buf) @
      utf8_decode 0 0 0x80 0xBF (buf ! j # drop (Suc j) buf)"
    by (rule utf8_decode_split) (use assms(2) in simp_all)
  finally show ?thesis by (simp only: toString_utf8_def d)
qed

lemma device_name_text: 
  "extract_device_name (new_SwitcherUDPMessage buf) =
     removeAll 0 (take 32 (drop 40 (toString_utf8 buf)))"
  by (simp add: extract_device_name_def new_SwitcherUDPMessage_def substr_def)

lemma device_name_shifted:
  assumes pre: "length (toString_utf8 (take j buf)) = 40"
    and len: "j + 32 \<le> length buf"
    and ascii: "list_all (\<lambda>b. b < 0x80) (take 32 (drop j buf))"
  shows "extract_device_name (new_SwitcherUDPMessage buf) =
    map ucast (removeAll 0 (take 32 (drop j buf)))"
proof -
  define xs where "xs = take 32 (drop j buf)"
  define rest where "rest = drop (j + 32) buf"
  have lx: "length xs = 32" using len by (simp add: xs_def)
  have j: "j < length buf" using len by simp
  have "take 32 (drop j buf) ! 0 = buf ! j" using len by simp
  moreover have "take 32 (drop j buf) ! 0 \<in> set (take 32 (drop j buf))"
    using lx by (simp add: xs_def [symmetric])
  ultimately have bj: "buf ! j < 0x80" using ascii by (auto simp add: list_all_iff)
  have a: "\<forall>b \<in> set xs. b < 0x80" using ascii by (simp add: xs_def list_all_iff)
  have "drop 32 (drop j buf) = rest" by (simp add: rest_def add.commute)
  then have "drop j buf = xs @ rest"
    using append_take_drop_id [of 32 "drop j buf"] by (simp only: xs_def)
  then have "toString_utf8 (drop j buf) = map ucast xs @ utf8_decode 0 0 0x80 0xBF rest"
    using a by (simp only: toString_utf8_def utf8_decode_ascii_run)
  then have "toString_utf8 buf =
      toString_utf8 (take j buf) @ map ucast xs @ utf8_decode 0 0 0x80 0xBF rest"
    using toString_utf8_split [OF j bj] by simp
  then have "take 32 (drop 40 (toString_utf8 buf)) = map ucast xs"
    using pre lx by simp
  then show ?thesis
    by (simp only: device_name_text removeAll_nul_ucast xs_def)
qed

text \<open>
  Claim C7, as the program has it. For every buffer, valid or not, the name is
  cut out of the text the buffer decodes to as UTF-8, not out of the bytes: it
  is the 32 code units from index 40 of that text (fewer if the text ends
  before), with every NUL removed. In bytes: if the \<open>j\<close> bytes before the name
  decode to 40 code units and the 32 bytes from offset \<open>j\<close> are ASCII, the name
  is those 32 bytes without their NULs. For a buffer that starts with the magic
  bytes, each of which decodes to one \<open>U+FFFD\<close>, and whose bytes 2 to 71 are
  ASCII, \<open>j\<close> is 40: the name is the 32 bytes from offset 40 without their
  NULs. With the byte \<open>A5\<close> at offset 2, which continues the sequence that
  \<open>F0\<close> starts, \<open>j\<close> is 41.
\<close>

theorem device_name_from_text_index_40:
  "extract_device_name (new_SwitcherUDPMessage buf) =
     removeAll 0 (take 32 (drop 40 (toString_utf8 buf))) \<and>
   (length (toString_utf8 (take j buf)) = 40 \<and> j + 32 \<le> length buf \<and>
    list_all (\<lambda>b. b < 0x80) (take 32 (drop j buf)) \<longrightarrow>
      extract_device_name (new_SwitcherUDPMessage buf) =
        map ucast (removeAll 0 (take 32 (drop j buf)))) \<and>
   (take 2 buf = [0xFE, 0xF0] \<and> 72 \<le> length buf \<and>
    list_all (\<lambda>b. b < 0x80) (take 70 (drop 2 buf)) \<longrightarrow>
      extract_device_name (new_SwitcherUDPMessage buf) =
        map ucast (removeAll 0 (take 32 (drop 40 buf))))"
proof (intro conjI impI)
  show "extract_device_name (new_SwitcherUDPMessage buf) =
     removeAll 0 (take 32 (drop 40 (toString_utf8 buf)))"
    by (rule device_name_text)
next
  assume "length (toString_utf8 (take j buf)) = 40 \<and> j + 32 \<le> length buf \<and>
    list_all (\<lambda>b. b < 0x80) (take 32 (drop j buf))"
  then show "extract_device_name (new_SwitcherUDPMessage buf) =
        map ucast (removeAll 0 (take 32 (drop j buf)))"
    using device_name_shifted by blast
next
  assume "take 2 buf = [0xFE, 0xF0] \<and> 72 \<le> length buf \<and>
    list_all (\<lambda>b. b < 0x80) (take 70 (drop 2 buf))"
  then show "extract_device_name (new_SwitcherUDPMessage buf) =
        map ucast (removeAll 0 (take 32 (drop 40 buf)))"
    using device_name_ascii [of buf] by (simp add: list_all_iff)
qed

lemma example_magic: "take 2 example_broadcast = [0xFE, 0xF0]"
  by (simp add: example_broadcast_def)

lemma example_ascii: "list_all (\<lambda>b. b < 0x80) (take 70 (drop 2 example_broadcast))"
  by (simp add: example_broadcast_def list_all_replicate)

lemma example_name: "removeAll 0 (take 32 (drop 40 example_broadcast)) = [0x42, 0x6F, 0x69, 0x6C, 0x65, 0x72]"
  by (simp add: example_broadcast_def removeAll_replicate)

lemma example_with_length:
  "example_broadcast_with_length =
     [0xFE, 0xF0, 0xA5] @ replicate 15 0 @ [0x12, 0x34, 0x56] @ replicate 19 0 @
     [0x42, 0x6F, 0x69, 0x6C, 0x65, 0x72] @ replicate 30 0 @ [192, 168, 1, 10] @
     replicate 53 0 @ [1, 0] @ [0x10, 0x0A] @ replicate 10 0 @ [0x58, 0x02, 0, 0] @
     replicate 4 0 @ [0x10, 0x0E, 0, 0] @ replicate 6 0"
proof -
  have "replicate 16 (0 :: byte) = 0 # replicate 15 0" by (simp add: numeral_eq_Suc)
  then show ?thesis
    by (simp add: example_broadcast_with_length_def example_broadcast_def)
qed

lemma utf8_decode_magic_length:
  "b < 0x80 \<Longrightarrow> utf8_decode 0 0 0x80 0xBF (0xFE # 0xF0 # 0xA5 # b # bs) =
     0xFFFD # 0xFFFD # utf8_decode 0 0 0x80 0xBF (b # bs)"
proof -
  assume b: "b < 0x80"
  have 1: "utf8_decode 0 0 0x80 0xBF (0xFE # 0xF0 # 0xA5 # b # bs) =
      0xFFFD # utf8_decode 0 0 0x80 0xBF (0xF0 # 0xA5 # b # bs)"
    by (simp del: utf8_decode.simps add: utf8_decode.simps(2) [of 0 0 "0x80" "0xBF" "0xFE"])
  have 2: "utf8_decode 0 0 0x80 0xBF (0xF0 # 0xA5 # b # bs) = utf8_decode 3 0 0x90 0xBF (0xA5 # b # bs)"
    by (simp del: utf8_decode.simps add: utf8_decode.simps(2) [of 0 0 "0x80" "0xBF" "0xF0"])
  have 3: "utf8_decode 3 0 0x90 0xBF (0xA5 # b # bs) = utf8_decode 2 37 0x80 0xBF (b # bs)"
    by (simp del: utf8_decode.simps add: utf8_decode.simps(2) [of 3 0 "0x90" "0xBF" "0xA5"])
  have 4: "utf8_decode 2 37 0x80 0xBF (b # bs) = 0xFFFD # utf8_decode 0 0 0x80 0xBF (b # bs)"
    using b
    by (simp del: utf8_decode.simps add: utf8_decode.simps(2) [of 2 37 "0x80" "0xBF" b])
  show ?thesis by (simp only: 1 2 3 4)
qed

lemma example_with_length_prefix:
  "length (toString_utf8 (take 41 example_broadcast_with_length)) = 40"
proof -
  have t: "take 41 example_broadcast_with_length =
      0xFE # 0xF0 # 0xA5 # 0 # (replicate 14 0 @ [0x12, 0x34, 0x56] @ replicate 19 0 @ [0x42])"
    by (simp add: example_with_length numeral_eq_Suc)
  have a: "\<forall>b \<in> set (0 # (replicate 14 0 @ [0x12, 0x34, 0x56] @ replicate 19 0 @ [0x42 :: byte])). b < 0x80"
    by auto
  have "toString_utf8 (take 41 example_broadcast_with_length) =
      0xFFFD # 0xFFFD # utf8_decode 0 0 0x80 0xBF
         ((0 # (replicate 14 0 @ [0x12, 0x34, 0x56] @ replicate 19 0 @ [0x42])) @ [])"
    unfolding toString_utf8_def t by (simp only: utf8_decode_magic_length append_Nil2) simp
  also have "\<dots> = 0xFFFD # 0xFFFD #
      map ucast (0 # (replicate 14 0 @ [0x12, 0x34, 0x56] @ replicate 19 0 @ [0x42 :: byte]))"
    using a by (simp only: utf8_decode_ascii_run) simp
  finally show ?thesis by simp
qed

lemma example_with_length_ascii:
  "list_all (\<lambda>b. b < 0x80) (take 32 (drop 41 example_broadcast_with_length))"
  by (simp add: example_with_length list_all_replicate)

lemma example_with_length_name:
  "removeAll 0 (take 32 (drop 41 example_broadcast_with_length)) = [0x6F, 0x69, 0x6C, 0x65, 0x72]"
  by (simp add: example_with_length removeAll_replicate)

lemma example_prefix: "length (toString_utf8 (take 40 example_broadcast)) = 40"
proof -
  have t: "take 40 example_broadcast =
      0xFE # 0xF0 # 0 # (replicate 15 0 @ [0x12, 0x34, 0x56] @ replicate 19 0)"
    by (simp add: example_broadcast_def numeral_eq_Suc)
  have a: "\<forall>b \<in> set (0 # (replicate 15 0 @ [0x12, 0x34, 0x56] @ replicate 19 (0 :: byte))). b < 0x80"
    by auto
  have "toString_utf8 (take 40 example_broadcast) =
      0xFFFD # 0xFFFD # utf8_decode 0 0 0x80 0xBF
         ((0 # (replicate 15 0 @ [0x12, 0x34, 0x56] @ replicate 19 0)) @ [])"
    unfolding toString_utf8_def t by (simp only: utf8_decode_magic append_Nil2) simp
  also have "\<dots> = 0xFFFD # 0xFFFD #
      map ucast (0 # (replicate 15 0 @ [0x12, 0x34, 0x56] @ replicate 19 (0 :: byte)))"
    using a by (simp only: utf8_decode_ascii_run) simp
  finally show ?thesis by simp
qed

lemma example_ascii_name: "list_all (\<lambda>b. b < 0x80) (take 32 (drop 40 example_broadcast))"
  by (simp add: example_broadcast_def list_all_replicate)

theorem device_name_from_text_index_40_witness:
  "take 2 example_broadcast = [0xFE, 0xF0] \<and> 72 \<le> length example_broadcast \<and>
   list_all (\<lambda>b. b < 0x80) (take 70 (drop 2 example_broadcast)) \<and>
   length (toString_utf8 (take 40 example_broadcast)) = 40 \<and>
   extract_device_name (new_SwitcherUDPMessage example_broadcast) =
     [0x42, 0x6F, 0x69, 0x6C, 0x65, 0x72] \<and>
   length example_broadcast_with_length = 165 \<and>
   length (toString_utf8 (take 41 example_broadcast_with_length)) = 40 \<and>
   list_all (\<lambda>b. b < 0x80) (take 32 (drop 41 example_broadcast_with_length)) \<and>
   extract_device_name (new_SwitcherUDPMessage example_broadcast_with_length) =
     [0x6F, 0x69, 0x6C, 0x65, 0x72]"
proof -
  have l: "72 \<le> length example_broadcast" by (simp add: example_broadcast_def)
  have l': "length example_broadcast_with_length = 165"
    by (simp add: example_broadcast_with_length_def example_broadcast_def)
  then have l41: "41 + 32 \<le> length example_broadcast_with_length" by simp
  have n: "extract_device_name (new_SwitcherUDPMessage example_broadcast) =
     [0x42, 0x6F, 0x69, 0x6C, 0x65, 0x72]"
    using device_name_from_text_index_40 [of example_broadcast 40, THEN conjunct2] example_magic l example_ascii
    by (simp add: example_name)
  have n': "extract_device_name (new_SwitcherUDPMessage example_broadcast_with_length) =
     [0x6F, 0x69, 0x6C, 0x65, 0x72]"
    using device_name_from_text_index_40 [of example_broadcast_with_length 41, THEN conjunct2]
      example_with_length_prefix l41 example_with_length_ascii
    by (simp add: example_with_length_name)
  show ?thesis
    using example_magic l example_ascii example_prefix n l' example_with_length_prefix
      example_with_length_ascii n'
    by (intro conjI)
qed

lemma misplaced_magic: "take 2 misplaced_name_frame = [0xFE, 0xF0]"
  by (simp add: misplaced_name_frame_def)

lemma misplaced_ascii: "\<forall>b \<in> set (take 70 (drop 2 misplaced_name_frame)). b < 0x80"
  by (simp add: misplaced_name_frame_def)

text \<open>
  Claim C7, as stated, fails: in a broadcast whose only text is the letter
  \<open>A\<close> at byte offset 20 the decoded name is empty, while the 32 bytes from
  offset 20 without their NULs are \<open>A\<close>.
\<close>

theorem device_name_not_at_20:
  "take 2 misplaced_name_frame = [0xFE, 0xF0] \<and> length misplaced_name_frame = 165 \<and>
   extract_device_name (new_SwitcherUDPMessage misplaced_name_frame) = [] \<and>
   map ucast (removeAll 0 (take 32 (drop 20 misplaced_name_frame))) = [0x41 :: code_unit]"
proof -
  have l: "length misplaced_name_frame = 165" by (simp add: misplaced_name_frame_def)
  then have l72: "72 \<le> length misplaced_name_frame" by simp
  have "removeAll 0 (take 32 (drop 40 misplaced_name_frame)) = []"
    by (simp add: misplaced_name_frame_def removeAll_replicate)
  then have n: "extract_device_name (new_SwitcherUDPMessage misplaced_name_frame) = []"
    using device_name_ascii [OF misplaced_magic l72 misplaced_ascii] by simp
  have c: "map ucast (removeAll 0 (take 32 (drop 20 misplaced_name_frame))) = [0x41 :: code_unit]"
    by (simp add: misplaced_name_frame_def removeAll_replicate)
  show ?thesis using misplaced_magic l n c by (intro conjI)
qed

section \<open>Closing a Switcher\<close>

lemma close_twice_throws:
  "status_socket s = Some u \<Longrightarrow> fst (close (snd (close s))) = Some ERR_SOCKET_DGRAM_NOT_RUNNING"
  by (auto simp add: close_def dgram_close_def dgram_destroyed_def net_destroy_def Let_def
      split: option.splits)

text \<open>
  Claim C9. The claim wants a second \<open>close\<close> to do nothing and to raise
  nothing. The guard of the status socket reads \<^verbatim>\<open>destroyed\<close>, which a UDP
  socket does not have, so the guard always holds and the second call closes a
  socket that is already closed: on a new \<open>Switcher\<close> the first call succeeds
  and the second throws.
\<close>

theorem close_not_idempotent:
  "fst (close (new_Switcher dev_id ip)) = None \<and>
   fst (close (snd (close (new_Switcher dev_id ip)))) = Some ERR_SOCKET_DGRAM_NOT_RUNNING"
proof -
  have "fst (close (new_Switcher dev_id ip)) = None"
    by (simp add: close_def new_Switcher_def hijack_status_report_def dgram_close_def
        dgram_destroyed_def)
  moreover have "fst (close (snd (close (new_Switcher dev_id ip)))) = Some ERR_SOCKET_DGRAM_NOT_RUNNING"
    by (rule close_twice_throws [of _ hijack_status_report]) (simp add: new_Switcher_def)
  ultimately show ?thesis by (intro conjI)
qed

section \<open>The timer of a discovery\<close>


section \<open>The session token\<close>

lemma written_append: "written (xs @ ys) = written xs @ written ys"
  by (induction xs rule: written.induct) simp_all

lemma Buffer_from_hex_prefix:
  "Buffer_from_hex (toString_hex a @ rest) = a @ Buffer_from_hex rest"
  by (induction a) (simp_all add: hex_value_hex_digit byte_div16)

lemma toString_hex_nonempty: "length tok = 4 \<Longrightarrow> toString_hex tok \<noteq> []"
  by (cases tok) simp_all

lemma login_cached:
  "truthy (p_session s) \<Longrightarrow> login crc s w = (Returned (p_session s), s, w)"
  by (simp add: login_def)

lemma getsocket_keeps:
  assumes "getsocket s w = (r, s', w')"
  shows "p_session s' = p_session s \<and> written (trace w') = written (trace w) \<and>
         time_in_seconds w' = time_in_seconds w"
  using assms
  by (auto simp add: getsocket_def connect_socket_def written_append
      split: option.splits list.splits bool.splits if_splits)

lemma getsocket_open:
  assumes "socket s = Some k" and "\<not> destroyed k"
  shows "getsocket s w = (Inr k, s, w)"
  using assms by (simp add: getsocket_def)

lemma power_header: "''fef05d0002320102'' = toString_hex [0xFE, 0xF0, 0x5D, 0x00, 0x02, 0x32, 0x01, 0x02]"
  by (simp add: hex_digit_def)

lemma power_frame_token:
  assumes "length tok = 4"
  shows "token_field (Buffer_from_hex (power_data s (Str (toString_hex tok)) ts c @ rest)) = tok \<and>
         \<not> is_login_frame (Buffer_from_hex (power_data s (Str (toString_hex tok)) ts c @ rest))"
proof -
  obtain rest' where "power_data s (Str (toString_hex tok)) ts c @ rest =
      toString_hex [0xFE, 0xF0, 0x5D, 0x00, 0x02, 0x32, 0x01, 0x02] @ toString_hex tok @ rest'"
    unfolding power_data_def js_to_string.simps power_header by (simp only: append_assoc)
  then have "Buffer_from_hex (power_data s (Str (toString_hex tok)) ts c @ rest) =
      [0xFE, 0xF0, 0x5D, 0x00, 0x02, 0x32, 0x01, 0x02] @ tok @ Buffer_from_hex rest'"
    by (simp only: Buffer_from_hex_prefix)
  then show ?thesis
    using assms by (simp add: token_field_def is_login_frame_def)
qed


lemma run_power_command_cached:
  assumes tok: "truthy (p_session s)"
    and run: "run_power_command crc c s w = (r, s', w')"
  shows "p_session s' = p_session s \<and>
    (written (trace w') = written (trace w) \<or>
     (\<exists>ts rest. written (trace w') =
        written (trace w) @ [Buffer_from_hex (power_data s (p_session s) ts c @ rest)]))"
proof (cases "get_time_stamp w")
  case (Inl e)
  then show ?thesis
    using run by (simp add: run_power_command_def login_cached [OF tok])
next
  case (Inr ts)
  obtain x1 s2 w2 where g1: "getsocket s w = (x1, s2, w2)" by (cases "getsocket s w")
  note k1 = getsocket_keeps [OF g1]
  show ?thesis
  proof (cases x1)
    case (Inl err)
    then show ?thesis
      using run Inr g1 k1
      by (simp add: run_power_command_def login_cached [OF tok] sign_string)
  next
    case k: (Inr k)
    obtain x2 s3 w3 where g2: "getsocket s2 w2 = (x2, s3, w3)" by (cases "getsocket s2 w2")
    note k2 = getsocket_keeps [OF g2]
    show ?thesis
    proof (cases x2)
      case (Inl err)
      then show ?thesis
        using run Inr g1 k1 k g2 k2
        by (simp add: run_power_command_def login_cached [OF tok] sign_string)
    next
      case k': (Inr k')
      have "p_session s' = p_session s \<and> (\<exists>rest. written (trace w') =
        written (trace w) @ [Buffer_from_hex (power_data s (p_session s) ts c @ rest)])"
        using run Inr g1 k1 k g2 k2 k'
        by (auto simp add: run_power_command_def login_cached [OF tok] sign_string Let_def
              written_append power_data_def
            split: list.splits reply.splits)
      then show ?thesis by blast
    qed
  qed
qed


lemma get_time_stamp_ok:
  "time_in_seconds w < 2 ^ 32 \<Longrightarrow> \<exists>ts. get_time_stamp w = Inr ts"
proof -
  assume "time_in_seconds w < 2 ^ 32"
  then have "int (time_in_seconds w) < 2 ^ 32" by simp
  then show ?thesis by (simp add: get_time_stamp_def struct_pack_LI_def)
qed

lemma run_power_command_connected:
  assumes tok: "truthy (p_session s)"
    and sock: "socket s = Some k" "\<not> destroyed k"
    and time: "time_in_seconds w < 2 ^ 32"
    and run: "run_power_command crc c s w = (r, s', w')"
  shows "socket s' = socket s \<and> (\<exists>f. written (trace w') = written (trace w) @ [f])"
proof -
  obtain ts where ts: "get_time_stamp w = Inr ts" using get_time_stamp_ok [OF time] by blast
  show ?thesis
    using run ts getsocket_open [OF sock]
    by (auto simp add: run_power_command_def login_cached [OF tok] sign_string Let_def
              written_append
            split: list.splits reply.splits)
qed

lemma run_power_command_frames:
  assumes tok: "p_session s = Str (toString_hex tok)" and len: "length tok = 4"
    and run: "run_power_command crc c s w = (r, s', w')"
  shows "\<exists>fs. written (trace w') = written (trace w) @ fs \<and>
      list_all (\<lambda>f. token_field f = tok \<and> \<not> is_login_frame f) fs \<and>
      p_session s' = p_session s"
proof -
  have t: "truthy (p_session s)" using toString_hex_nonempty [OF len] by (simp add: tok)
  from run_power_command_cached [OF t run]
  have p: "p_session s' = p_session s"
    and d: "written (trace w') = written (trace w) \<or>
     (\<exists>ts rest. written (trace w') =
        written (trace w) @ [Buffer_from_hex (power_data s (p_session s) ts c @ rest)])"
    by simp_all
  from d show ?thesis
  proof
    assume "written (trace w') = written (trace w)"
    then have "written (trace w') = written (trace w) @ [] \<and>
      list_all (\<lambda>f. token_field f = tok \<and> \<not> is_login_frame f) [] \<and> p_session s' = p_session s"
      using p by simp
    then show ?thesis by blast
  next
    assume "\<exists>ts rest. written (trace w') =
        written (trace w) @ [Buffer_from_hex (power_data s (p_session s) ts c @ rest)]"
    then obtain ts rest where w: "written (trace w') =
        written (trace w) @ [Buffer_from_hex (power_data s (Str (toString_hex tok)) ts c @ rest)]"
      by (auto simp add: tok)
    have "list_all (\<lambda>f. token_field f = tok \<and> \<not> is_login_frame f)
        [Buffer_from_hex (power_data s (Str (toString_hex tok)) ts c @ rest)]"
      using power_frame_token [OF len, of s ts c rest] by simp
    then show ?thesis using w p by blast
  qed
qed


lemma frames_since_append:
  "written (trace w') = written (trace w) @ fs \<Longrightarrow> frames_since w w' = fs"
  by (simp add: frames_since_def)

lemma status_header: "''fef0300002320103'' = toString_hex [0xFE, 0xF0, 0x30, 0x00, 0x02, 0x32, 0x01, 0x03]"
  by (simp add: hex_digit_def)

lemma shutdown_header: "''fef05b0002320102'' = toString_hex [0xFE, 0xF0, 0x5B, 0x00, 0x02, 0x32, 0x01, 0x02]"
  by (simp add: hex_digit_def)

lemma status_frame_token:
  assumes "length tok = 4"
  shows "token_field (Buffer_from_hex (status_data s (Str (toString_hex tok)) ts @ rest)) = tok \<and>
         \<not> is_login_frame (Buffer_from_hex (status_data s (Str (toString_hex tok)) ts @ rest))"
proof -
  obtain rest' where "status_data s (Str (toString_hex tok)) ts @ rest =
      toString_hex [0xFE, 0xF0, 0x30, 0x00, 0x02, 0x32, 0x01, 0x03] @ toString_hex tok @ rest'"
    unfolding status_data_def js_to_string.simps status_header by (simp only: append_assoc)
  then have "Buffer_from_hex (status_data s (Str (toString_hex tok)) ts @ rest) =
      [0xFE, 0xF0, 0x30, 0x00, 0x02, 0x32, 0x01, 0x03] @ tok @ Buffer_from_hex rest'"
    by (simp only: Buffer_from_hex_prefix)
  then show ?thesis
    using assms by (simp add: token_field_def is_login_frame_def)
qed

lemma shutdown_frame_token:
  assumes "length tok = 4"
  shows "token_field (Buffer_from_hex (shutdown_data s (Str (toString_hex tok)) ts a @ rest)) = tok \<and>
         \<not> is_login_frame (Buffer_from_hex (shutdown_data s (Str (toString_hex tok)) ts a @ rest))"
proof -
  obtain rest' where "shutdown_data s (Str (toString_hex tok)) ts a @ rest =
      toString_hex [0xFE, 0xF0, 0x5B, 0x00, 0x02, 0x32, 0x01, 0x02] @ toString_hex tok @ rest'"
    unfolding shutdown_data_def js_to_string.simps shutdown_header by (simp only: append_assoc)
  then have "Buffer_from_hex (shutdown_data s (Str (toString_hex tok)) ts a @ rest) =
      [0xFE, 0xF0, 0x5B, 0x00, 0x02, 0x32, 0x01, 0x02] @ tok @ Buffer_from_hex rest'"
    by (simp only: Buffer_from_hex_prefix)
  then show ?thesis
    using assms by (simp add: token_field_def is_login_frame_def)
qed

lemma status_cached:
  assumes tok: "truthy (p_session s)"
    and run: "status crc s w = (r, s', w')"
  shows "p_session s' = p_session s \<and>
    (written (trace w') = written (trace w) \<or>
     (\<exists>ts rest. written (trace w') =
        written (trace w) @ [Buffer_from_hex (status_data s (p_session s) ts @ rest)]))"
proof (cases "get_time_stamp w")
  case (Inl e)
  then show ?thesis
    using run by (simp add: status_def login_cached [OF tok])
next
  case (Inr ts)
  obtain x1 s2 w2 where g1: "getsocket s w = (x1, s2, w2)" by (cases "getsocket s w")
  note k1 = getsocket_keeps [OF g1]
  show ?thesis
  proof (cases x1)
    case (Inl err)
    then show ?thesis
      using run Inr g1 k1
      by (simp add: status_def login_cached [OF tok] sign_string)
  next
    case k: (Inr k)
    have "p_session s' = p_session s \<and> (\<exists>rest. written (trace w') =
        written (trace w) @ [Buffer_from_hex (status_data s (p_session s) ts @ rest)])"
      using run Inr g1 k1 k
      by (auto simp add: status_def login_cached [OF tok] sign_string Let_def
            written_append status_data_def status_reply_def
          split: list.splits reply.splits)
    then show ?thesis by blast
  qed
qed

lemma set_default_shutdown_cached:
  assumes tok: "truthy (p_session s)"
    and run: "set_default_shutdown crc d s w = (r, s', w')"
  shows "p_session s' = p_session s \<and>
    (written (trace w') = written (trace w) \<or>
     (\<exists>ts a rest. written (trace w') =
        written (trace w) @ [Buffer_from_hex (shutdown_data s (p_session s) ts a @ rest)]))"
proof (cases "set_default_shutdown_value d")
  case (Inl e)
  then show ?thesis using run by (simp add: set_default_shutdown_def)
next
  case a: (Inr a)
  show ?thesis
  proof (cases "get_time_stamp w")
    case (Inl e)
    then show ?thesis
      using run a by (simp add: set_default_shutdown_def login_cached [OF tok])
  next
    case (Inr ts)
    obtain x1 s2 w2 where g1: "getsocket s w = (x1, s2, w2)" by (cases "getsocket s w")
    note k1 = getsocket_keeps [OF g1]
    show ?thesis
    proof (cases x1)
      case (Inl err)
      then show ?thesis
        using run a Inr g1 k1
        by (simp add: set_default_shutdown_def login_cached [OF tok] sign_string)
    next
      case k: (Inr k)
      have "p_session s' = p_session s \<and> (\<exists>rest. written (trace w') =
          written (trace w) @ [Buffer_from_hex (shutdown_data s (p_session s) ts a @ rest)])"
        using run a Inr g1 k1 k
        by (auto simp add: set_default_shutdown_def login_cached [OF tok] sign_string Let_def
              written_append shutdown_data_def
            split: list.splits reply.splits)
      then show ?thesis by blast
    qed
  qed
qed

lemma written_status_reply: "written [status_reply d] = []"
  by (simp add: status_reply_def Let_def)

lemma status_frames:
  assumes tok: "p_session s = Str (toString_hex tok)" and len: "length tok = 4"
    and run: "status crc s w = (r, s', w')"
  shows "\<exists>fs. written (trace w') = written (trace w) @ fs \<and>
      list_all (\<lambda>f. token_field f = tok \<and> \<not> is_login_frame f) fs \<and>
      p_session s' = p_session s"
proof -
  have t: "truthy (p_session s)" using toString_hex_nonempty [OF len] by (simp add: tok)
  from status_cached [OF t run]
  have p: "p_session s' = p_session s"
    and d: "written (trace w') = written (trace w) \<or>
     (\<exists>ts rest. written (trace w') =
        written (trace w) @ [Buffer_from_hex (status_data s (p_session s) ts @ rest)])"
    by simp_all
  from d show ?thesis
  proof
    assume "written (trace w') = written (trace w)"
    then have "written (trace w') = written (trace w) @ [] \<and>
      list_all (\<lambda>f. token_field f = tok \<and> \<not> is_login_frame f) [] \<and> p_session s' = p_session s"
      using p by simp
    then show ?thesis by blast
  next
    assume "\<exists>ts rest. written (trace w') =
        written (trace w) @ [Buffer_from_hex (status_data s (p_session s) ts @ rest)]"
    then obtain ts rest where w: "written (trace w') =
        written (trace w) @ [Buffer_from_hex (status_data s (Str (toString_hex tok)) ts @ rest)]"
      by (auto simp add: tok)
    have "list_all (\<lambda>f. token_field f = tok \<and> \<not> is_login_frame f)
        [Buffer_from_hex (status_data s (Str (toString_hex tok)) ts @ rest)]"
      using status_frame_token [OF len, of s ts rest] by simp
    then show ?thesis using w p by blast
  qed
qed

lemma set_default_shutdown_frames:
  assumes tok: "p_session s = Str (toString_hex tok)" and len: "length tok = 4"
    and run: "set_default_shutdown crc d s w = (r, s', w')"
  shows "\<exists>fs. written (trace w') = written (trace w) @ fs \<and>
      list_all (\<lambda>f. token_field f = tok \<and> \<not> is_login_frame f) fs \<and>
      p_session s' = p_session s"
proof -
  have t: "truthy (p_session s)" using toString_hex_nonempty [OF len] by (simp add: tok)
  from set_default_shutdown_cached [OF t run]
  have p: "p_session s' = p_session s"
    and d: "written (trace w') = written (trace w) \<or>
     (\<exists>ts a rest. written (trace w') =
        written (trace w) @ [Buffer_from_hex (shutdown_data s (p_session s) ts a @ rest)])"
    by simp_all
  from d show ?thesis
  proof
    assume "written (trace w') = written (trace w)"
    then have "written (trace w') = written (trace w) @ [] \<and>
      list_all (\<lambda>f. token_field f = tok \<and> \<not> is_login_frame f) [] \<and> p_session s' = p_session s"
      using p by simp
    then show ?thesis by blast
  next
    assume "\<exists>ts a rest. written (trace w') =
        written (trace w) @ [Buffer_from_hex (shutdown_data s (p_session s) ts a @ rest)]"
    then obtain ts a rest where w: "written (trace w') =
        written (trace w) @ [Buffer_from_hex (shutdown_data s (Str (toString_hex tok)) ts a @ rest)]"
      by (auto simp add: tok)
    have "list_all (\<lambda>f. token_field f = tok \<and> \<not> is_login_frame f)
        [Buffer_from_hex (shutdown_data s (Str (toString_hex tok)) ts a @ rest)]"
      using shutdown_frame_token [OF len, of s ts a rest] by simp
    then show ?thesis using w p by blast
  qed
qed

lemma turn_on_frames:
  assumes tok: "p_session s = Str (toString_hex tok)" and len: "length tok = 4"
    and run: "turn_on crc d s w = (r, s', w')"
  shows "\<exists>fs. written (trace w') = written (trace w) @ fs \<and>
      list_all (\<lambda>f. token_field f = tok \<and> \<not> is_login_frame f) fs \<and>
      p_session s' = p_session s"
proof (cases "on_command d")
  case (Inl e)
  then have "written (trace w') = written (trace w) @ [] \<and>
      list_all (\<lambda>f. token_field f = tok \<and> \<not> is_login_frame f) [] \<and> p_session s' = p_session s"
    using run by (simp add: turn_on_def)
  then show ?thesis by blast
next
  case (Inr c)
  then have "run_power_command crc c s w = (r, s', w')" using run by (simp add: turn_on_def)
  then show ?thesis by (rule run_power_command_frames [OF tok len])
qed

lemma perform_frames:
  assumes tok: "p_session s = Str (toString_hex tok)" and len: "length tok = 4"
    and run: "perform crc c s w = (r, s', w')"
  shows "\<exists>fs. written (trace w') = written (trace w) @ fs \<and>
      list_all (\<lambda>f. token_field f = tok \<and> \<not> is_login_frame f) fs \<and>
      p_session s' = p_session s"
proof (cases c)
  case Turn_off
  then have "run_power_command crc off_command s w = (r, s', w')"
    using run by (simp add: turn_off_def)
  then show ?thesis by (rule run_power_command_frames [OF tok len])
next
  case (Turn_on d)
  then have "turn_on crc d s w = (r, s', w')" using run by simp
  then show ?thesis by (rule turn_on_frames [OF tok len])
next
  case (Set_default_shutdown d)
  then have "set_default_shutdown crc d s w = (r, s', w')" using run by simp
  then show ?thesis by (rule set_default_shutdown_frames [OF tok len])
next
  case Query_status
  then have "status crc s w = (r, s', w')" using run by simp
  then show ?thesis by (rule status_frames [OF tok len])
qed

lemma status_connected:
  assumes tok: "truthy (p_session s)"
    and sock: "socket s = Some k" "\<not> destroyed k"
    and time: "time_in_seconds w < 2 ^ 32"
    and run: "status crc s w = (r, s', w')"
  shows "socket s' = socket s \<and> (\<exists>f. written (trace w') = written (trace w) @ [f])"
proof -
  obtain ts where ts: "get_time_stamp w = Inr ts" using get_time_stamp_ok [OF time] by blast
  show ?thesis
    using run ts getsocket_open [OF sock]
    by (auto simp add: status_def login_cached [OF tok] sign_string Let_def
              written_append written_status_reply
            split: list.splits reply.splits)
qed

lemma set_default_shutdown_connected:
  assumes tok: "truthy (p_session s)"
    and sock: "socket s = Some k" "\<not> destroyed k"
    and time: "time_in_seconds w < 2 ^ 32"
    and enc: "set_default_shutdown_value d = Inr a"
    and run: "set_default_shutdown crc d s w = (r, s', w')"
  shows "socket s' = socket s \<and> (\<exists>f. written (trace w') = written (trace w) @ [f])"
proof -
  obtain ts where ts: "get_time_stamp w = Inr ts" using get_time_stamp_ok [OF time] by blast
  show ?thesis
    using run ts enc getsocket_open [OF sock]
    by (auto simp add: set_default_shutdown_def login_cached [OF tok] sign_string Let_def
              written_append
            split: list.splits reply.splits)
qed

lemma perform_connected:
  assumes tok: "truthy (p_session s)"
    and sock: "socket s = Some k" "\<not> destroyed k"
    and time: "time_in_seconds w < 2 ^ 32"
    and enc: "builds_frame c"
    and run: "perform crc c s w = (r, s', w')"
  shows "socket s' = socket s \<and> (\<exists>f. written (trace w') = written (trace w) @ [f])"
proof (cases c)
  case Turn_off
  then have "run_power_command crc off_command s w = (r, s', w')"
    using run by (simp add: turn_off_def)
  then show ?thesis by (rule run_power_command_connected [OF tok sock time])
next
  case (Turn_on d)
  then obtain cmd where "on_command d = Inr cmd"
    using enc by (cases "on_command d") simp_all
  then have "run_power_command crc cmd s w = (r, s', w')"
    using run Turn_on by (simp add: turn_on_def)
  then show ?thesis by (rule run_power_command_connected [OF tok sock time])
next
  case (Set_default_shutdown d)
  then obtain a where a: "set_default_shutdown_value d = Inr a"
    using enc by (cases "set_default_shutdown_value d") simp_all
  have "set_default_shutdown crc d s w = (r, s', w')" using run Set_default_shutdown by simp
  then show ?thesis by (rule set_default_shutdown_connected [OF tok sock time a])
next
  case Query_status
  then have "status crc s w = (r, s', w')" using run by simp
  then show ?thesis by (rule status_connected [OF tok sock time])
qed

text \<open>
  Claim C5. Let the session hold the token \<open>tok\<close> of four bytes that a login
  returned, and let \<open>c1\<close> and \<open>c2\<close> be any two calls in sequence, each of
  \<open>turn_off\<close>, \<open>turn_on\<close>, \<open>set_default_shutdown\<close> or \<open>status\<close> with any
  argument (the surroundings may change in between, the trace may not). Then
  \<open>login\<close> returns that token at once, without a change of the state or of
  the trace, before the first and before the second call; the session holds
  the token after each call, so the same holds for every further call; every
  frame the two calls write carries \<open>tok\<close> in its session field and is no login
  frame; and with the connection open, the clock within 32 bits and arguments
  with which the calls get as far as building a frame, the two calls write
  exactly two frames.
\<close>

theorem session_token_reused:
  assumes tok: "p_session s = Str (toString_hex tok)" and len: "length tok = 4"
    and r1: "perform crc c1 s w = (r1, s1, w1)"
    and tr: "trace w1' = trace w1"
    and r2: "perform crc c2 s1 w1' = (r2, s2, w2)"
  shows "login crc s w = (Returned (Str (toString_hex tok)), s, w) \<and>
     login crc s1 w1' = (Returned (Str (toString_hex tok)), s1, w1') \<and>
     p_session s1 = Str (toString_hex tok) \<and>
     p_session s2 = Str (toString_hex tok) \<and>
     written (trace w2) = written (trace w) @ frames_since w w2 \<and>
     list_all (\<lambda>f. token_field f = tok \<and> \<not> is_login_frame f) (frames_since w w2) \<and>
     ((case socket s of None \<Rightarrow> False | Some k \<Rightarrow> \<not> destroyed k) \<and>
      time_in_seconds w < 2 ^ 32 \<and> time_in_seconds w1' < 2 ^ 32 \<and>
      builds_frame c1 \<and> builds_frame c2 \<longrightarrow>
        length (frames_since w w2) = 2)"
proof -
  have t: "truthy (p_session s)" using toString_hex_nonempty [OF len] by (simp add: tok)
  obtain fs1 where f1: "written (trace w1) = written (trace w) @ fs1"
    and a1: "list_all (\<lambda>f. token_field f = tok \<and> \<not> is_login_frame f) fs1"
    and p1: "p_session s1 = p_session s"
    using perform_frames [OF tok len r1] by blast
  have tok1: "p_session s1 = Str (toString_hex tok)" using p1 tok by simp
  then have t1: "truthy (p_session s1)" using t p1 by simp
  obtain fs2 where f2: "written (trace w2) = written (trace w1') @ fs2"
    and a2: "list_all (\<lambda>f. token_field f = tok \<and> \<not> is_login_frame f) fs2"
    and p2: "p_session s2 = p_session s1"
    using perform_frames [OF tok1 len r2] by blast
  have all: "written (trace w2) = written (trace w) @ (fs1 @ fs2)"
    using f1 f2 tr by simp
  have fs: "frames_since w w2 = fs1 @ fs2" using all by (rule frames_since_append)
  have l1: "login crc s w = (Returned (Str (toString_hex tok)), s, w)"
    using login_cached [OF t, of crc w] by (simp only: tok)
  have l2: "login crc s1 w1' = (Returned (Str (toString_hex tok)), s1, w1')"
    using login_cached [OF t1, of crc w1'] by (simp only: tok1)
  have two: "length (frames_since w w2) = 2"
    if open_socket: "case socket s of None \<Rightarrow> False | Some k \<Rightarrow> \<not> destroyed k"
      and time: "time_in_seconds w < 2 ^ 32" and time': "time_in_seconds w1' < 2 ^ 32"
      and b1: "builds_frame c1" and b2: "builds_frame c2"
  proof -
    obtain k where k: "socket s = Some k" "\<not> destroyed k"
      using open_socket by (cases "socket s") simp_all
    have c1: "socket s1 = socket s \<and> (\<exists>f. written (trace w1) = written (trace w) @ [f])"
      using perform_connected [OF t k time b1 r1] .
    then have k1: "socket s1 = Some k" using k by simp
    have c2: "socket s2 = socket s1 \<and> (\<exists>f. written (trace w2) = written (trace w1') @ [f])"
      using perform_connected [OF t1 k1 k(2) time' b2 r2] .
    from c1 c2 f1 f2 have "length fs1 = 1" and "length fs2 = 1" by auto
    then show ?thesis by (simp add: fs)
  qed
  show ?thesis
    using l1 l2 p2 tok1 all a1 a2 two by (simp add: fs)
qed

lemma example_token: "p_session example_session = Str (toString_hex [1, 2, 3, 4])"
  by (simp add: example_session_def hex_digit_def)

theorem session_token_reused_witness:
  "p_session example_session = Str (toString_hex [1, 2, 3, 4]) \<and> length [1, 2, 3, 4 :: byte] = 4 \<and>
   builds_frame Query_status \<and> builds_frame (Set_default_shutdown 7200) \<and>
   length (frames_since example_world
     (snd (snd (perform crc16ccitt (Set_default_shutdown 7200)
       (fst (snd (perform crc16ccitt Query_status example_session example_world)))
       (example_world\<lparr>trace := trace (snd (snd
          (perform crc16ccitt Query_status example_session example_world)))\<rparr>))))) = 2 \<and>
   list_all (\<lambda>f. token_field f = [1, 2, 3, 4] \<and> \<not> is_login_frame f)
     (frames_since example_world
     (snd (snd (perform crc16ccitt (Set_default_shutdown 7200)
       (fst (snd (perform crc16ccitt Query_status example_session example_world)))
       (example_world\<lparr>trace := trace (snd (snd
          (perform crc16ccitt Query_status example_session example_world)))\<rparr>)))))"
proof -
  define R1 where "R1 = perform crc16ccitt Query_status example_session example_world"
  define W1 where "W1 = example_world\<lparr>trace := trace (snd (snd R1))\<rparr>"
  define R2 where "R2 = perform crc16ccitt (Set_default_shutdown 7200) (fst (snd R1)) W1"
  have len: "length [1, 2, 3, 4 :: byte] = 4" by simp
  have r1: "perform crc16ccitt Query_status example_session example_world =
      (fst R1, fst (snd R1), snd (snd R1))" by (simp add: R1_def)
  have tr: "trace W1 = trace (snd (snd R1))" by (simp add: W1_def)
  have r2: "perform crc16ccitt (Set_default_shutdown 7200) (fst (snd R1)) W1 =
      (fst R2, fst (snd R2), snd (snd R2))" by (simp add: R2_def)
  have b: "builds_frame Query_status \<and> builds_frame (Set_default_shutdown 7200)"
    by (simp add: set_default_shutdown_value_def struct_pack_LI_def)
  have c: "(case socket example_session of None \<Rightarrow> False | Some k \<Rightarrow> \<not> destroyed k) \<and>
      time_in_seconds example_world < 2 ^ 32 \<and> time_in_seconds W1 < 2 ^ 32"
    by (simp add: example_session_def example_world_def W1_def)
  have "length (frames_since example_world (snd (snd R2))) = 2 \<and>
     list_all (\<lambda>f. token_field f = [1, 2, 3, 4] \<and> \<not> is_login_frame f)
       (frames_since example_world (snd (snd R2)))"
    using session_token_reused [OF example_token len r1 tr r2] c b by blast
  then show ?thesis
    using example_token b unfolding R2_def W1_def R1_def by simp
qed

subsection \<open>The login that sets the token\<close>

text \<open>
  A login on a session without a token, with a connection and a reply of at
  least 12 bytes, writes one login frame and caches the text of bytes 8 to 11
  of the reply: the state the theorem above starts from.
\<close>

lemma getsocket_replies:
  assumes "getsocket s w = (r, s', w')"
  shows "replies w' = replies w"
  using assms
  by (auto simp add: getsocket_def connect_socket_def
      split: option.splits list.splits bool.splits if_splits)

lemma login_header: "''fef052000232a100'' = toString_hex [0xFE, 0xF0, 0x52, 0x00, 0x02, 0x32, 0xA1, 0x00]"
  by (simp add: hex_digit_def)

lemma login_frame_is_login:
  "is_login_frame (Buffer_from_hex (login_data s ts @ rest))"
proof -
  obtain rest' where "login_data s ts @ rest =
      toString_hex [0xFE, 0xF0, 0x52, 0x00, 0x02, 0x32, 0xA1, 0x00] @ rest'"
    unfolding login_data_def login_header by (simp only: append_assoc)
  then have "Buffer_from_hex (login_data s ts @ rest) =
      [0xFE, 0xF0, 0x52, 0x00, 0x02, 0x32, 0xA1, 0x00] @ Buffer_from_hex rest'"
    by (simp only: Buffer_from_hex_prefix)
  then show ?thesis by (simp add: is_login_frame_def)
qed

lemma login_sets_token:
  assumes fresh: "\<not> truthy (p_session s)"
    and time: "time_in_seconds w < 2 ^ 32"
    and sock: "getsocket s w = (Inr k, s1, w1)"
    and rep: "replies w = Data d # rest"
    and len: "12 \<le> length d"
    and run: "login crc s w = (r, s', w')"
  shows "r = Returned (Str (toString_hex (take 4 (drop 8 d)))) \<and>
    p_session s' = Str (toString_hex (take 4 (drop 8 d))) \<and>
    length (take 4 (drop 8 d)) = 4 \<and>
    (\<exists>f. written (trace w') = written (trace w) @ [f] \<and> is_login_frame f)"
proof -
  obtain ts where ts: "get_time_stamp w = Inr ts" using get_time_stamp_ok [OF time] by blast
  have tokhex: "substr (toString_hex d) 16 8 = toString_hex (take 4 (drop 8 d))"
    using substr_toString_hex [of d 8 4] by simp
  have r1: "replies w1 = Data d # rest" using getsocket_replies [OF sock] rep by simp
  have k1: "written (trace w1) = written (trace w)" using getsocket_keeps [OF sock] by simp
  have l: "length (take 4 (drop 8 d)) = 4" using len by simp
  have "r = Returned (Str (toString_hex (take 4 (drop 8 d)))) \<and>
    p_session s' = Str (toString_hex (take 4 (drop 8 d))) \<and>
    written (trace w') = written (trace w) @
      [Buffer_from_hex (login_data s ts @
         toString_hex (swapped (crc (Buffer_from_hex (login_data s ts)) 0x1021)) @
          toString_hex (swapped (crc (Buffer_from_hex
             (toString_hex (swapped (crc (Buffer_from_hex (login_data s ts)) 0x1021)) @
              toString_hex (Buffer_from P_KEY))) 0x1021)))]"
    using run fresh ts sock r1 k1
    by (auto simp add: login_def sign_string Let_def written_append tokhex)
  then show ?thesis using l login_frame_is_login by blast
qed

section \<open>The duration of a power-on command\<close>

lemma decimal_value_digit: "n < 10 \<Longrightarrow> decimal_value (hex_digit n) = Some n"
proof -
  assume "n < 10"
  then have "n \<in> set [0..<10]" by simp
  then have "n \<in> {0, 1, 2, 3, 4, 5, 6, 7, 8, 9}"
    by (simp add: upt_rec numeral_eq_Suc)
  then show ?thesis
    by (auto simp add: decimal_value_def hex_digit_def Let_def nth_Cons')
qed

lemma number_toString_digits:
  "\<forall>c \<in> set (number_toString m). decimal_value c \<noteq> None"
proof (induction m rule: number_toString.induct)
  case (1 n)
  show ?case
  proof (cases "n < 10")
    case True
    then show ?thesis
      by (simp add: number_toString.simps [of n] decimal_value_digit)
  next
    case False
    have "n mod 10 < 10" by simp
    then have "decimal_value (hex_digit (n mod 10)) \<noteq> None"
      by (simp only: decimal_value_digit) simp
    then show ?thesis
      using False 1 by (simp add: number_toString.simps [of n])
  qed
qed

lemma number_toString_nonempty: "number_toString m \<noteq> []"
  by (simp add: number_toString.simps [of m])




lemma digit_not_sign: "decimal_value c \<noteq> None \<Longrightarrow> c \<noteq> CHR ''-'' \<and> c \<noteq> CHR ''+''"
  by (auto simp add: decimal_value_def)








lemma parseInt_digit: "decimal_value c \<noteq> None \<Longrightarrow> parseInt (c # cs) \<noteq> None"
  using digit_not_sign [of c] by (auto simp add: parseInt_def parse_digits_def)

lemma parseInt_minus_digit: "decimal_value c \<noteq> None \<Longrightarrow> parseInt (CHR ''-'' # c # cs) \<noteq> None"
  by (auto simp add: parseInt_def parse_digits_def)

lemma parseInt_signed:
  "decimal_value c \<noteq> None \<Longrightarrow> parseInt ((if neg then ''-'' else []) @ c # cs) \<noteq> None"
  using parseInt_digit [of c cs] parseInt_minus_digit [of c cs] by simp

lemma number_toString_leading: "0 < m \<Longrightarrow> hd (number_toString m) \<noteq> CHR ''0''"
proof (induction m rule: number_toString.induct)
  case (1 n)
  show ?case
  proof (cases "n < 10")
    case True
    then have "n \<in> set [0..<10]" by simp
    then have "n \<in> {0, 1, 2, 3, 4, 5, 6, 7, 8, 9}"
      by (simp add: upt_rec numeral_eq_Suc)
    then show ?thesis
      using 1(2) by (auto simp add: number_toString.simps [of n] hex_digit_def)
  next
    case False
    then have "0 < n div 10" by simp
    then have "hd (number_toString (n div 10)) \<noteq> CHR ''0''" using 1(1) [OF False] by simp
    then show ?thesis
      using False number_toString_nonempty [of "n div 10"]
      by (simp add: number_toString.simps [of n])
  qed
qed

lemma significant_leading:
  assumes "c \<noteq> CHR ''0''"
  shows "\<exists>cs'. significant (c # cs) = c # cs'"
proof -
  have "dropWhile (\<lambda>c. c = CHR ''0'') (rev cs @ [c]) =
      dropWhile (\<lambda>c. c = CHR ''0'') (rev cs) @ [c]"
    using assms by (simp add: dropWhile_append)
  then show ?thesis by (simp add: significant_def)
qed

lemma significant_digits: "set (significant ds) \<subseteq> set ds"
  using set_dropWhileD [of _ "\<lambda>c. c = CHR ''0''" "rev ds"] by (auto simp add: significant_def)

lemma parseInt_ToString: "parseInt (ToString x) \<noteq> None"
proof (cases x)
  case (Number neg s n)
  show ?thesis
  proof (cases "s = 0")
    case True
    then show ?thesis
      by (simp add: Number parseInt_def parse_digits_def decimal_value_def)
  next
    case False
    obtain c0 cs0 where ds0: "number_toString s = c0 # cs0"
      using number_toString_nonempty [of s] by (cases "number_toString s") simp_all
    then have "c0 \<noteq> CHR ''0''" using number_toString_leading [of s] False by simp
    then obtain cs where ds: "significant (number_toString s) = c0 # cs"
      using significant_leading [of c0 cs0] by (auto simp add: ds0)
    define c where "c = c0"
    have ds: "significant (number_toString s) = c # cs" using ds by (simp add: c_def)
    have c: "decimal_value c \<noteq> None"
      using number_toString_digits [of s] by (simp add: ds0 c_def)
    have z: "decimal_value CHR ''0'' \<noteq> None" by (simp add: decimal_value_def)
    have t: "0 < n \<Longrightarrow> take (nat n) (c # cs) = c # take (nat n - 1) cs"
      by (cases "nat n") simp_all
    show ?thesis
    proof (cases neg)
      case True
      show ?thesis
        using False parseInt_minus_digit [OF c] parseInt_minus_digit [OF z] t
        by (auto simp add: Number ds Let_def True)
    next
      case neg: False
      show ?thesis
        using False parseInt_digit [OF c] parseInt_digit [OF z] t
        by (auto simp add: Number ds Let_def neg)
    qed
  qed
qed
































section \<open>The checksum is the reference CRC\<close>

lemma xor_cancel_poly: "(u XOR p) XOR (v XOR p) = u XOR v" for u v p :: "16 word"
  by (rule bit_word_eqI) (auto simp add: bit_xor_iff)

lemma xor_poly_left: "(u XOR p) XOR v = (u XOR v) XOR p" for u v p :: "16 word"
  by (rule bit_word_eqI) (auto simp add: bit_xor_iff)

lemma xor_poly_right: "u XOR (v XOR p) = (u XOR v) XOR p" for u v p :: "16 word"
  by (rule bit_word_eqI) (auto simp add: bit_xor_iff)

lemma crc_shift_xor:
  "crc_shift p (a XOR b) = crc_shift p a XOR crc_shift p b"
proof -
  define u where "u = push_bit 1 a"
  define v where "v = push_bit 1 b"
  have s: "push_bit 1 (a XOR b) = u XOR v"
    unfolding u_def v_def by (rule push_bit_xor)
  have c: "bit (a XOR b) 15 \<longleftrightarrow> bit a 15 \<noteq> bit b 15"
    by (simp add: bit_xor_iff)
  have x1: "u XOR v = (u XOR p) XOR (v XOR p)" by (simp only: xor_cancel_poly)
  have x2: "(u XOR v) XOR p = (u XOR p) XOR v" by (simp only: xor_poly_left)
  have x3: "(u XOR v) XOR p = u XOR (v XOR p)" by (simp only: xor_poly_right)
  show ?thesis
    unfolding crc_shift_def s c u_def [symmetric] v_def [symmetric]
    using x1 x2 x3 by (cases "bit a 15"; cases "bit b 15") simp_all
qed

lemma crc_shift_0: "crc_shift p 0 = 0"
  by (simp add: crc_shift_def)

lemma crc_shifts_xor:
  "(crc_shift p ^^ n) (a XOR b) = (crc_shift p ^^ n) a XOR (crc_shift p ^^ n) b"
  by (induction n) (simp_all add: crc_shift_xor)

lemma crc_shifts_0: "(crc_shift p ^^ n) 0 = 0"
  by (induction n) (simp_all add: crc_shift_0)

lemma or_bit0: "push_bit 1 (r :: 16 word) OR of_bool b = push_bit 1 r XOR of_bool b"
  by (rule bit_word_eqI) (auto simp add: bit_simps bit_0 simp del: push_bit_of_1)

lemma division_step_shift: "division_step r b = crc_shift 0x1021 r XOR of_bool b"
proof -
  define u where "u = push_bit 1 r"
  have x: "(u XOR of_bool b) XOR 0x1021 = (u XOR 0x1021) XOR of_bool b"
    by (simp only: xor_poly_left)
  have ob: "u OR of_bool b = u XOR of_bool b"
    unfolding u_def by (rule or_bit0)
  show ?thesis
    unfolding division_step_def crc_shift_def u_def [symmetric] ob
    using x by (cases "bit r 15") simp_all
qed


lemma division_steps:
  "foldl division_step r bits =
     (crc_shift 0x1021 ^^ length bits) r XOR foldl division_step 0 bits"
proof (induction bits rule: rev_induct)
  case Nil
  show ?case by simp
next
  case (snoc x xs)
  define S where "S = crc_shift 0x1021"
  have "foldl division_step r (xs @ [x]) = S (foldl division_step r xs) XOR of_bool x"
    by (simp add: division_step_shift S_def)
  also have "\<dots> = S ((S ^^ length xs) r XOR foldl division_step 0 xs) XOR of_bool x"
    using snoc.IH by (simp only: S_def)
  also have "\<dots> = (S ((S ^^ length xs) r) XOR S (foldl division_step 0 xs)) XOR of_bool x"
    by (simp only: S_def crc_shift_xor)
  also have "\<dots> = (S ^^ length (xs @ [x])) r XOR (S (foldl division_step 0 xs) XOR of_bool x)"
    by (simp add: xor.assoc)
  also have "S (foldl division_step 0 xs) XOR of_bool x = foldl division_step 0 (xs @ [x])"
    by (simp add: division_step_shift S_def)
  finally show ?case by (simp only: S_def)
qed

lemma division_zeros:
  "foldl division_step r (replicate n False) = (crc_shift 0x1021 ^^ n) r"
proof -
  have "foldl division_step 0 (replicate n False) = 0"
    by (induction n) (simp_all add: division_step_shift crc_shift_0)
  then show ?thesis
    using division_steps [of r "replicate n False"] by simp
qed


lemma byte_high_bits: "8 \<le> n \<Longrightarrow> \<not> bit (ucast (b :: byte) :: 16 word) n"
  by (auto simp add: bit_simps dest: bit_imp_le_length)

lemma division_takes_bit:
  assumes "j < 8"
  shows "division_step (drop_bit (8 - j) (ucast (b :: byte))) (bit b (7 - j)) =
         drop_bit (7 - j) (ucast b)"
proof -
  define c where "c = (ucast b :: 16 word)"
  have top: "\<not> bit (drop_bit (8 - j) c) 15"
    using byte_high_bits [of "8 - j + 15" b] by (simp add: bit_drop_bit_eq c_def)
  have "push_bit 1 (drop_bit (8 - j) c) OR of_bool (bit b (7 - j)) = drop_bit (7 - j) c"
  proof (rule bit_word_eqI)
    fix n
    assume "n < LENGTH(16)"
    show "bit (push_bit 1 (drop_bit (8 - j) c) OR of_bool (bit b (7 - j))) n \<longleftrightarrow>
          bit (drop_bit (7 - j) c) n"
    proof (cases n)
      case 0
      have "7 - j < 16" by simp
      then have "bit c (7 - j) \<longleftrightarrow> bit b (7 - j)"
        by (simp add: c_def bit_simps)
      then show ?thesis
        unfolding 0 bit_or_iff bit_push_bit_iff bit_of_bool_iff bit_drop_bit_eq comp_def
        by simp
    next
      case (Suc m)
      have "8 - j + m = Suc m + (7 - j)" using assms by simp
      then show ?thesis
        unfolding Suc bit_or_iff bit_push_bit_iff bit_of_bool_iff bit_drop_bit_eq comp_def
        using Suc \<open>n < LENGTH(16)\<close> by (simp add: ac_simps)
    qed
  qed
  then show ?thesis
    using top by (simp only: division_step_def c_def [symmetric] if_False)
qed


lemma division_takes_bits:
  "j \<le> 8 \<Longrightarrow> foldl division_step 0 (map (bit b) (rev [8 - j..<8])) =
     drop_bit (8 - j) (ucast (b :: byte))"
proof (induction j)
  case 0
  have "drop_bit 8 (ucast b :: 16 word) = 0"
    by (rule bit_word_eqI) (simp add: bit_drop_bit_eq byte_high_bits)
  then show ?case by simp
next
  case (Suc j)
  then have j: "j < 8" by simp
  then have e: "8 - Suc j = 7 - j" "Suc (7 - j) = 8 - j" "7 - j < 8" by simp_all
  have "[8 - Suc j..<8] = (7 - j) # [8 - j..<8]"
    using upt_conv_Cons [OF e(3)] by (simp only: e)
  then have "foldl division_step 0 (map (bit b) (rev [8 - Suc j..<8])) =
      division_step (foldl division_step 0 (map (bit b) (rev [8 - j..<8]))) (bit b (7 - j))"
    by simp
  also have "\<dots> = division_step (drop_bit (8 - j) (ucast b)) (bit b (7 - j))"
    using Suc.IH j by simp
  also have "\<dots> = drop_bit (7 - j) (ucast b)"
    using j by (rule division_takes_bit)
  finally show ?case by simp
qed

lemma division_byte: "foldl division_step 0 (bits_of b) = ucast b"
  using division_takes_bits [of 8 b] by (simp add: bits_of_def)

lemma length_bits_of: "length (bits_of b) = 8"
  by (simp add: bits_of_def)

lemma crc_shifts_byte:
  "k \<le> 8 \<Longrightarrow> (crc_shift p ^^ k) (ucast (b :: byte)) = push_bit k (ucast b)"
proof (induction k)
  case 0
  show ?case by simp
next
  case (Suc k)
  then have k: "k < 8" by simp
  have "\<not> bit (push_bit k (ucast b :: 16 word)) 15"
    using k byte_high_bits [of "15 - k" b] by (simp add: bit_push_bit_iff)
  then have "crc_shift p (push_bit k (ucast b)) = push_bit 1 (push_bit k (ucast b))"
    by (simp only: crc_shift_def if_False)
  also have "\<dots> = push_bit (Suc k) (ucast b)"
    by (simp only: push_bit_push_bit) simp
  finally show ?case using Suc.IH k by simp
qed


lemma crc_byte_linear:
  "crc_byte p acc b = (crc_shift p ^^ 8) acc XOR (crc_shift p ^^ 16) (ucast b)"
proof -
  have "(crc_shift p ^^ 8) (push_bit 8 (ucast b)) = (crc_shift p ^^ 8) ((crc_shift p ^^ 8) (ucast b))"
    by (simp only: crc_shifts_byte [of 8 p b, simplified])
  also have "\<dots> = (crc_shift p ^^ (8 + 8)) (ucast b)"
    by (simp only: funpow_add comp_def)
  finally have "(crc_shift p ^^ 8) (push_bit 8 (ucast b)) = (crc_shift p ^^ 16) (ucast b)"
    by simp
  then show ?thesis
    by (simp only: crc_byte_def crc_shifts_xor)
qed

lemma crc_bytes_division:
  "foldl (crc_byte 0x1021) ((crc_shift 0x1021 ^^ 16) r) bytes =
     (crc_shift 0x1021 ^^ 16) (foldl division_step r (concat (map bits_of bytes)))"
proof (induction bytes arbitrary: r)
  case Nil
  show ?case by simp
next
  case (Cons b bs)
  define S where "S = crc_shift 0x1021"
  have "crc_byte 0x1021 ((S ^^ 16) r) b = (S ^^ 8) ((S ^^ 16) r) XOR (S ^^ 16) (ucast b)"
    by (simp only: crc_byte_linear S_def)
  also have "(S ^^ 8) ((S ^^ 16) r) = (S ^^ 16) ((S ^^ 8) r)"
    by (simp only: funpow_add [symmetric, unfolded comp_def, THEN fun_cong] add.commute)
  also have "(S ^^ 16) ((S ^^ 8) r) XOR (S ^^ 16) (ucast b) = (S ^^ 16) ((S ^^ 8) r XOR ucast b)"
    by (simp only: S_def crc_shifts_xor)
  also have "(S ^^ 8) r XOR ucast b = foldl division_step r (bits_of b)"
    using division_steps [of r "bits_of b"]
    by (simp only: S_def length_bits_of division_byte)
  finally have step: "crc_byte 0x1021 ((S ^^ 16) r) b = (S ^^ 16) (foldl division_step r (bits_of b))" .
  show ?case
    using Cons.IH [of "foldl division_step r (bits_of b)"] step
    by (simp add: S_def)
qed

text \<open>
  Claim C4. For every sequence of bytes, the checksum the specification
  describes (byte by byte, with polynomial \<open>0x1021\<close> and accumulator 0 at the
  start) is the reference CRC-16/CCITT, the remainder of the long division; so
  the signer computes the same frame with either.
\<close>

theorem crc16ccitt_is_reference:
  "crc16ccitt bytes 0x1021 = crc16_ccitt_reference bytes \<and>
   crc_sign_full_packet_com_key crc16ccitt p_data p_key =
     crc_sign_full_packet_com_key (\<lambda>buf poly. crc16_ccitt_reference buf) p_data p_key"
proof -
  have "crc16ccitt bs 0x1021 = crc16_ccitt_reference bs" for bs
  proof -
    have "crc16ccitt bs 0x1021 = foldl (crc_byte 0x1021) ((crc_shift 0x1021 ^^ 16) 0) bs"
      by (simp only: crc16ccitt_def crc_shifts_0)
    also have "\<dots> = (crc_shift 0x1021 ^^ 16) (foldl division_step 0 (concat (map bits_of bs)))"
      by (rule crc_bytes_division)
    also have "\<dots> = crc16_ccitt_reference bs"
      by (simp only: crc16_ccitt_reference_def foldl_append division_zeros)
    finally show ?thesis .
  qed
  then show ?thesis
    by (simp only: sign_string simp_thms)
qed

text \<open>The check value of this CRC for the text \<open>123456789\<close>.\<close>

lemma funpow8: "(f ^^ 8) x = f (f (f (f (f (f (f (f x)))))))"
  by (simp add: eval_nat_numeral)

lemma crc16ccitt_check_value: "crc16ccitt (Buffer_from ''123456789'') 0x1021 = 0x31C3"
  by (simp add: crc16ccitt_def crc_byte_def crc_shift_def Buffer_from_def funpow8)

end
